theory Spec2Isabelle
  imports Main "HOL-Library.Word" "HOL-Library.Signed_Division"
begin

unbundle bit_operations_syntax

section \<open>Data model\<close>

text \<open>
  The three operations of the stack that are embedded here are
  \<^verbatim>\<open>_nx_igmp_interface_report_send\<close>, \<^verbatim>\<open>_nx_tcp_client_socket_connect\<close> and
  \<^verbatim>\<open>_nx_udp_socket_bind\<close>.  They work on control blocks that are linked by C
  pointers, so the model keeps one store per kind of control block: a pointer is
  an address, \<open>0\<close> is \<^verbatim>\<open>NX_NULL\<close>, and reading through an address that holds no
  control block is the fault \<open>INVALID_POINTER\<close>.  \<^verbatim>\<open>ULONG\<close> and \<^verbatim>\<open>UINT\<close> are 32-bit
  words whose arithmetic wraps.  The trace insertions
  (\<^verbatim>\<open>NX_TRACE_IN_LINE_INSERT\<close>) and the interrupt lockout (\<^verbatim>\<open>TX_DISABLE\<close>,
  \<^verbatim>\<open>TX_RESTORE\<close>) do not change the memory modelled here and are left out; the
  calls that take and release the mutex of the IP instance are recorded.
\<close>

type_synonym ULONG = "32 word"
type_synonym UINT = "32 word"
type_synonym UCHAR = "8 word"
type_synonym addr = nat

datatype fault = INVALID_POINTER

definition NX_NULL :: addr where "NX_NULL = 0"
definition NX_TRUE :: UINT where "NX_TRUE = 1"
definition NX_FALSE :: UINT where "NX_FALSE = 0"
definition TX_TRUE :: UINT where "TX_TRUE = 1"
definition TX_NO_WAIT :: ULONG where "TX_NO_WAIT = 0"
definition TX_WAIT_FOREVER :: ULONG where "TX_WAIT_FOREVER = 0xFFFFFFFF"
definition NX_SHIFT_BY_16 :: nat where "NX_SHIFT_BY_16 = 16"
definition NX_LOWER_16_MASK :: ULONG where "NX_LOWER_16_MASK = 0x0000FFFF"

text \<open>
  Completion codes.  The header that defines them is not among the sources; the
  names are the ones the three functions return, the values are those of the
  NetX API (only their being distinct and, except \<^verbatim>\<open>NX_SUCCESS\<close>, non-zero
  matters below).
\<close>

definition NX_SUCCESS :: UINT where "NX_SUCCESS = 0x00"
definition NX_IP_ADDRESS_ERROR :: UINT where "NX_IP_ADDRESS_ERROR = 0x21"
definition NX_ALREADY_BOUND :: UINT where "NX_ALREADY_BOUND = 0x22"
definition NX_PORT_UNAVAILABLE :: UINT where "NX_PORT_UNAVAILABLE = 0x23"
definition NX_NOT_BOUND :: UINT where "NX_NOT_BOUND = 0x24"
definition NX_NOT_CLOSED :: UINT where "NX_NOT_CLOSED = 0x35"
definition NX_IN_PROGRESS :: UINT where "NX_IN_PROGRESS = 0x37"
definition NX_NO_FREE_PORTS :: UINT where "NX_NO_FREE_PORTS = 0x45"
definition NX_INVALID_INTERFACE :: UINT where "NX_INVALID_INTERFACE = 0x4C"

text \<open>
  Compile-time configuration: the three \<^verbatim>\<open>NX_DISABLE_...\<close> switches that guard
  code in the embedded functions, the byte order of the target
  (\<^verbatim>\<open>NX_LITTLE_ENDIAN\<close>), and what the sources use but do not define: the sizes
  of the IP and TCP headers, the room \<^verbatim>\<open>NX_IGMP_PACKET\<close> that a packet keeps below
  an IGMP header, the mask of the UDP port table, and the layout of
  the IP control block, of which the functions take two addresses:
  \<open>address_nx_ip_interface cfg ip i\<close> is \<^verbatim>\<open>&(ip_ptr -> nx_ip_interface[i])\<close> and
  \<open>address_nx_ip_thread cfg ip\<close> is \<^verbatim>\<open>&(ip_ptr -> nx_ip_thread)\<close>.
\<close>

record nx_config =
  NX_DISABLE_IGMPV2 :: bool
  NX_DISABLE_IGMP_INFO :: bool
  NX_DISABLE_TCP_INFO :: bool
  NX_LITTLE_ENDIAN :: bool
  sizeof_NX_IP_HEADER :: nat
  sizeof_NX_TCP_HEADER :: nat
  NX_IGMP_PACKET :: ULONG
  NX_UDP_PORT_TABLE_MASK :: UINT
  address_nx_ip_interface :: "addr \<Rightarrow> UINT \<Rightarrow> addr"
  address_nx_ip_thread :: "addr \<Rightarrow> addr"

record NX_INTERFACE =
  nx_interface_ip_mtu_size :: ULONG

text \<open>
  The payload of a packet is kept word by word: \<open>nx_packet_data p a\<close> is the
  \<^verbatim>\<open>ULONG\<close> stored at byte address \<open>a\<close> of the packet's buffer.  The IGMP header
  overlaid at \<^verbatim>\<open>nx_packet_prepend_ptr\<close> has \<^verbatim>\<open>nx_igmp_header_word_0\<close> at offset 0
  and \<^verbatim>\<open>nx_igmp_header_word_1\<close> at offset 4.
\<close>

record NX_PACKET =
  nx_packet_length :: ULONG
  nx_packet_prepend_ptr :: int
  nx_packet_ip_interface :: addr
  nx_packet_next_hop_address :: ULONG
  nx_packet_data :: "int \<Rightarrow> ULONG"

record NX_IP =
  nx_ip_default_packet_pool :: addr
  nx_ip_igmp_router_version :: UINT
  nx_ip_igmp_reports_sent :: ULONG
  nx_ip_tcp_active_connections :: ULONG
  nx_ip_tcp_connections :: ULONG
  nx_ip_udp_port_table :: "UINT \<Rightarrow> addr"

text \<open>\<open>nx_ip_udp_port_table ip i\<close> is the head pointer stored in bucket \<open>i\<close>.\<close>

datatype tcp_state =
    NX_TCP_CLOSED | NX_TCP_LISTEN_STATE | NX_TCP_SYN_SENT | NX_TCP_SYN_RECEIVED
  | NX_TCP_ESTABLISHED | NX_TCP_FIN_WAIT_1 | NX_TCP_FIN_WAIT_2 | NX_TCP_CLOSE_WAIT
  | NX_TCP_CLOSING | NX_TCP_LAST_ACK | NX_TCP_TIMED_WAIT

record NX_TCP_SOCKET =
  nx_tcp_socket_ip_ptr :: addr
  nx_tcp_socket_bound_next :: addr
  nx_tcp_socket_state :: tcp_state
  nx_tcp_socket_connect_ip :: ULONG
  nx_tcp_socket_connect_port :: UINT
  nx_tcp_socket_next_hop_address :: ULONG
  nx_tcp_socket_connect_interface :: addr
  nx_tcp_socket_tx_sequence :: ULONG
  nx_tcp_socket_rx_window_default :: ULONG
  nx_tcp_socket_rx_window_current :: ULONG
  nx_tcp_socket_rx_window_last_sent :: ULONG
  nx_tcp_socket_fin_received :: UINT
  nx_tcp_socket_timeout :: ULONG
  nx_tcp_socket_timeout_rate :: ULONG
  nx_tcp_socket_timeout_retries :: ULONG
  nx_tcp_socket_tx_window_congestion :: ULONG
  nx_tcp_socket_tx_outstanding_bytes :: ULONG
  nx_tcp_socket_packets_sent :: ULONG
  nx_tcp_socket_bytes_sent :: ULONG
  nx_tcp_socket_packets_received :: ULONG
  nx_tcp_socket_bytes_received :: ULONG
  nx_tcp_socket_retransmit_packets :: ULONG
  nx_tcp_socket_checksum_errors :: ULONG
  nx_tcp_socket_transmit_sent_head :: addr
  nx_tcp_socket_transmit_sent_tail :: addr
  nx_tcp_socket_transmit_sent_count :: ULONG
  nx_tcp_socket_receive_queue_count :: ULONG
  nx_tcp_socket_receive_queue_head :: addr
  nx_tcp_socket_receive_queue_tail :: addr
  nx_tcp_socket_connect_suspended_thread :: addr

record NX_UDP_SOCKET =
  nx_udp_socket_ip_ptr :: addr
  nx_udp_socket_port :: UINT
  nx_udp_socket_bound_next :: addr
  nx_udp_socket_bound_previous :: addr
  nx_udp_socket_bind_in_progress :: addr
  nx_udp_socket_bind_suspension_list :: addr
  nx_udp_socket_bind_suspended_count :: ULONG

datatype cleanup_routine = NO_CLEANUP | NX_UDP_BIND_CLEANUP | NX_TCP_CONNECT_CLEANUP

record TX_THREAD =
  tx_thread_suspend_cleanup :: cleanup_routine
  tx_thread_suspend_control_block :: addr
  tx_thread_suspended_next :: addr
  tx_thread_suspended_previous :: addr
  tx_thread_state :: UINT
  tx_thread_suspending :: UINT
  tx_timer_internal_remaining_ticks :: ULONG
  tx_thread_suspend_status :: UINT

definition TX_TCP_IP :: UINT where "TX_TCP_IP = 12"

text \<open>
  The whole memory the operations can reach, with the two globals of the thread
  system they read and write.
\<close>

record world =
  ips :: "addr \<rightharpoonup> NX_IP"
  interfaces :: "addr \<rightharpoonup> NX_INTERFACE"
  packets :: "addr \<rightharpoonup> NX_PACKET"
  tcp_sockets :: "addr \<rightharpoonup> NX_TCP_SOCKET"
  udp_sockets :: "addr \<rightharpoonup> NX_UDP_SOCKET"
  threads :: "addr \<rightharpoonup> TX_THREAD"
  tx_thread_current_ptr :: addr
  tx_thread_preempt_disable :: UINT

text \<open>
  Every call that leaves the embedded functions is recorded, in order, with the
  memory as it was when the call was made.  What the callee does is not in the
  sources: it is a parameter of the model (the record \<open>env\<close> below).
\<close>

datatype call =
    TX_MUTEX_GET addr
  | TX_MUTEX_PUT addr
  | NX_PACKET_ALLOCATE addr ULONG ULONG
  | NX_IP_PACKET_SEND addr addr ULONG ULONG ULONG ULONG ULONG
  | NX_IP_ROUTE_FIND addr ULONG
  | NX_TCP_PACKET_SEND_SYN addr ULONG
  | NX_TCP_SOCKET_THREAD_SUSPEND addr cleanup_routine addr ULONG
  | NX_UDP_FREE_PORT_FIND addr UINT
  | TX_THREAD_SYSTEM_SUSPEND addr

type_synonym trace = "(call \<times> world) list"

record env =
  nx_packet_allocate :: "world \<Rightarrow> addr \<Rightarrow> ULONG \<Rightarrow> ULONG \<Rightarrow> UINT \<times> addr \<times> world"
  nx_ip_packet_send :: "world \<Rightarrow> addr \<Rightarrow> addr \<Rightarrow> ULONG \<Rightarrow> world"
  nx_ip_route_find :: "world \<Rightarrow> addr \<Rightarrow> ULONG \<Rightarrow> addr \<Rightarrow> ULONG \<Rightarrow> UINT \<times> addr \<times> ULONG"
  nx_tcp_packet_send_syn :: "world \<Rightarrow> addr \<Rightarrow> ULONG \<Rightarrow> world"
  nx_tcp_socket_thread_suspend :: "world \<Rightarrow> addr \<Rightarrow> ULONG \<Rightarrow> world"
  nx_udp_free_port_find :: "world \<Rightarrow> addr \<Rightarrow> UINT \<Rightarrow> UINT \<times> UINT"
  tx_thread_system_suspend :: "world \<Rightarrow> addr \<Rightarrow> world"
  nx_rand :: "nat \<Rightarrow> int"

text \<open>
  \<open>nx_ip_route_find e w ip dst itf hop\<close> gets the values that the two output
  locations hold before the call and returns the status with the values they
  hold after it.  \<open>nx_rand e k\<close> is the \<open>k\<close>-th value that \<^verbatim>\<open>NX_RAND()\<close> returns
  during one operation (in \<^verbatim>\<open>a | b\<close> the draw of \<^verbatim>\<open>a\<close> is counted first).
  \<open>nx_tcp_socket_thread_suspend\<close> and \<open>tx_thread_system_suspend\<close> return the
  memory as it is when the calling thread runs again.
\<close>

text \<open>Reading through a pointer: \<^verbatim>\<open>NX_NULL\<close> and dangling addresses fault.\<close>

definition load :: "(addr \<rightharpoonup> 'a) \<Rightarrow> addr \<Rightarrow> fault + 'a" where
  "load m p =
     (if p = NX_NULL then Inl INVALID_POINTER
      else case m p of None \<Rightarrow> Inl INVALID_POINTER | Some v \<Rightarrow> Inr v)"

section \<open>IGMP report\<close>

definition NX_IGMP_HEADER_SIZE :: ULONG where "NX_IGMP_HEADER_SIZE = 8"
definition NX_IGMP_VERSION :: ULONG where "NX_IGMP_VERSION = 0x10000000"
definition NX_IGMP_HOST_RESPONSE_TYPE :: ULONG where "NX_IGMP_HOST_RESPONSE_TYPE = 0x02000000"
definition NX_IGMP_HOST_V2_JOIN_TYPE :: ULONG where "NX_IGMP_HOST_V2_JOIN_TYPE = 0x16000000"
definition NX_IGMP_HOST_V2_LEAVE_TYPE :: ULONG where "NX_IGMP_HOST_V2_LEAVE_TYPE = 0x17000000"
definition NX_IGMP_HOST_VERSION_1 :: UINT where "NX_IGMP_HOST_VERSION_1 = 1"
definition NX_IGMP_HOST_VERSION_2 :: UINT where "NX_IGMP_HOST_VERSION_2 = 2"
definition NX_ALL_ROUTERS_ADDRESS :: ULONG where "NX_ALL_ROUTERS_ADDRESS = 0xE0000002"
definition NX_IP_NORMAL :: ULONG where "NX_IP_NORMAL = 0"
definition NX_IGMP_TTL :: ULONG where "NX_IGMP_TTL = 1"
definition NX_IP_IGMP :: ULONG where "NX_IP_IGMP = 0x00020000"
definition NX_FRAGMENT_OKAY :: ULONG where "NX_FRAGMENT_OKAY = 0"

text \<open>
  Modelled from the spec: the IGMP constants, which the sources use and do not
  define.  Their values follow the wire format of the spec: type bytes \<open>0x12\<close> (v1 report, as version nibble \<open>1\<close> and type
  nibble \<open>2\<close>), \<open>0x16\<close> (v2 join) and \<open>0x17\<close> (v2 leave) in the top byte of word 0,
  a zero maximum response time, and \<open>224.0.0.2\<close> for all routers.
\<close>

text \<open>Lines 143 to 175: the first header word, by router version and report kind.\<close>

definition igmp_header_word_0 :: "nx_config \<Rightarrow> UINT \<Rightarrow> UINT \<Rightarrow> ULONG" where
  "igmp_header_word_0 cfg router_version is_joining =
     (if NX_DISABLE_IGMPV2 cfg \<or> router_version = NX_IGMP_HOST_VERSION_1
      then NX_IGMP_VERSION OR NX_IGMP_HOST_RESPONSE_TYPE
      else if is_joining \<noteq> 0 then NX_IGMP_HOST_V2_JOIN_TYPE
      else NX_IGMP_HOST_V2_LEAVE_TYPE)"

text \<open>Lines 177 to 189: the sum of the four halves and its two folds.\<close>

definition igmp_checksum :: "ULONG \<Rightarrow> ULONG \<Rightarrow> ULONG" where
  "igmp_checksum word_0 word_1 =
     (let temp = word_0;
          checksum = drop_bit NX_SHIFT_BY_16 temp;
          checksum = checksum + (temp AND NX_LOWER_16_MASK);
          temp = word_1;
          checksum = checksum + drop_bit NX_SHIFT_BY_16 temp;
          checksum = checksum + (temp AND NX_LOWER_16_MASK);
          checksum = drop_bit NX_SHIFT_BY_16 checksum + (checksum AND NX_LOWER_16_MASK);
          checksum = drop_bit NX_SHIFT_BY_16 checksum + (checksum AND NX_LOWER_16_MASK)
      in checksum)"

text \<open>
  Modelled from the spec: the macro \<^verbatim>\<open>NX_CHANGE_ULONG_ENDIAN\<close> is not in the
  sources.  It swaps the four bytes of a word when \<^verbatim>\<open>NX_LITTLE_ENDIAN\<close> is
  defined and does nothing otherwise, so that the word lies in memory in network
  order.
\<close>

definition byte_swap :: "ULONG \<Rightarrow> ULONG" where
  "byte_swap x =
     push_bit 24 (x AND 0xFF) OR push_bit 8 (x AND 0xFF00)
       OR (drop_bit 8 x AND 0xFF00) OR drop_bit 24 x"

definition NX_CHANGE_ULONG_ENDIAN :: "nx_config \<Rightarrow> ULONG \<Rightarrow> ULONG" where
  "NX_CHANGE_ULONG_ENDIAN cfg x = (if NX_LITTLE_ENDIAN cfg then byte_swap x else x)"

definition nx_igmp_interface_report_send ::
  "nx_config \<Rightarrow> env \<Rightarrow> world \<Rightarrow> addr \<Rightarrow> ULONG \<Rightarrow> UINT \<Rightarrow> UINT \<Rightarrow> fault + (UINT \<times> world \<times> trace)"
where
  "nx_igmp_interface_report_send cfg e w0 ip_ptr group_address interface_index is_joining =
     (case load (ips w0) ip_ptr of
        Inl f \<Rightarrow> Inl f
      | Inr ip0 \<Rightarrow>
     (let pool = nx_ip_default_packet_pool ip0;
          size = NX_IGMP_PACKET cfg + NX_IGMP_HEADER_SIZE;
          tr1 = [(TX_MUTEX_GET ip_ptr, w0), (NX_PACKET_ALLOCATE pool size TX_NO_WAIT, w0)]
      in case nx_packet_allocate e w0 pool size TX_NO_WAIT of (status, packet_ptr, w1) \<Rightarrow>
      if status \<noteq> 0 then Inr (status, w1, tr1 @ [(TX_MUTEX_PUT ip_ptr, w1)])
      else
     (case load (ips w1) ip_ptr of
        Inl f \<Rightarrow> Inl f
      | Inr ip1 \<Rightarrow>
     (let ip2 = (if \<not> NX_DISABLE_IGMP_INFO cfg \<and> is_joining = NX_TRUE
                 then ip1\<lparr>nx_ip_igmp_reports_sent := nx_ip_igmp_reports_sent ip1 + 1\<rparr>
                 else ip1);
          w2 = w1\<lparr>ips := (ips w1)(ip_ptr \<mapsto> ip2)\<rparr>
      in case load (packets w2) packet_ptr of
        Inl f \<Rightarrow> Inl f
      | Inr p0 \<Rightarrow>
     (let p1 = p0\<lparr>nx_packet_length := NX_IGMP_HEADER_SIZE\<rparr>;
          p2 = p1\<lparr>nx_packet_prepend_ptr := nx_packet_prepend_ptr p1 - uint NX_IGMP_HEADER_SIZE\<rparr>;
          p3 = p2\<lparr>nx_packet_ip_interface := address_nx_ip_interface cfg ip_ptr interface_index\<rparr>;
          header_ptr = nx_packet_prepend_ptr p3;
          word_0 = igmp_header_word_0 cfg (nx_ip_igmp_router_version ip2) is_joining;
          word_1 = group_address;
          checksum = igmp_checksum word_0 word_1;
          word_0 = word_0 OR (NOT checksum AND NX_LOWER_16_MASK);
          word_0 = NX_CHANGE_ULONG_ENDIAN cfg word_0;
          word_1 = NX_CHANGE_ULONG_ENDIAN cfg word_1;
          p4 = p3\<lparr>nx_packet_data := (nx_packet_data p3)(header_ptr := word_0, header_ptr + 4 := word_1)\<rparr>;
          next_hop = (if is_joining = NX_TRUE then group_address else NX_ALL_ROUTERS_ADDRESS);
          p5 = p4\<lparr>nx_packet_next_hop_address := next_hop\<rparr>;
          w3 = w2\<lparr>packets := (packets w2)(packet_ptr \<mapsto> p5)\<rparr>;
          w4 = nx_ip_packet_send e w3 ip_ptr packet_ptr next_hop;
          tr2 = tr1 @ [(NX_IP_PACKET_SEND ip_ptr packet_ptr next_hop NX_IP_NORMAL NX_IGMP_TTL
                          NX_IP_IGMP NX_FRAGMENT_OKAY, w3),
                       (TX_MUTEX_PUT ip_ptr, w4)]
      in Inr (NX_SUCCESS, w4, tr2))))))"

text \<open>
  The memory as the allocator leaves it; what the report function itself does
  to the IP instance is measured against it.
\<close>

definition igmp_after_allocate :: "nx_config \<Rightarrow> env \<Rightarrow> world \<Rightarrow> addr \<Rightarrow> world" where
  "igmp_after_allocate cfg e w0 ip_ptr =
     (case load (ips w0) ip_ptr of
        Inl f \<Rightarrow> w0
      | Inr ip0 \<Rightarrow>
          snd (snd (nx_packet_allocate e w0 (nx_ip_default_packet_pool ip0)
                      (NX_IGMP_PACKET cfg + NX_IGMP_HEADER_SIZE) TX_NO_WAIT)))"

subsection \<open>The header as it lies in memory\<close>

text \<open>
  \<open>stored_bytes cfg x\<close> lists the four bytes of a stored \<^verbatim>\<open>ULONG\<close> from the lowest
  address up, in the byte order of the target.  \<open>igmp_wire_header\<close> is the eight
  bytes at the prepend pointer of a packet; \<open>words16\<close> groups bytes into 16-bit
  words in network order.
\<close>

definition stored_bytes :: "nx_config \<Rightarrow> ULONG \<Rightarrow> UCHAR list" where
  "stored_bytes cfg x =
     (if NX_LITTLE_ENDIAN cfg
      then [ucast x, ucast (drop_bit 8 x), ucast (drop_bit 16 x), ucast (drop_bit 24 x)]
      else [ucast (drop_bit 24 x), ucast (drop_bit 16 x), ucast (drop_bit 8 x), ucast x])"

definition igmp_wire_header :: "nx_config \<Rightarrow> NX_PACKET \<Rightarrow> UCHAR list" where
  "igmp_wire_header cfg p =
     stored_bytes cfg (nx_packet_data p (nx_packet_prepend_ptr p))
       @ stored_bytes cfg (nx_packet_data p (nx_packet_prepend_ptr p + 4))"

fun words16 :: "UCHAR list \<Rightarrow> 16 word list" where
  "words16 (hi # lo # bs) = (push_bit 8 (ucast hi) OR ucast lo) # words16 bs"
| "words16 bs = []"

text \<open>
  The one's-complement sum in the words of the specification: 16-bit addition
  whose carry out of bit 15 is added back in (end-around carry), over a list of
  16-bit words.  This definition follows the specification, not the code; the
  code's \<open>igmp_checksum\<close> is compared with it below.
\<close>

definition ones_complement_add :: "16 word \<Rightarrow> 16 word \<Rightarrow> 16 word" where
  "ones_complement_add x y = (if unat x + unat y < 65536 then x + y else x + y + 1)"

definition ones_complement_sum16 :: "16 word list \<Rightarrow> 16 word" where
  "ones_complement_sum16 ws = foldl ones_complement_add 0 ws"

definition halves16 :: "ULONG \<Rightarrow> 16 word list" where
  "halves16 x = [ucast (drop_bit 16 x), ucast x]"

text \<open>
  The same two operations on natural numbers: one fold of the carries, and
  addition with end-around carry.
\<close>

definition fold16 :: "nat \<Rightarrow> nat" where
  "fold16 n = n div 65536 + n mod 65536"

definition oc_add :: "nat \<Rightarrow> nat \<Rightarrow> nat" where
  "oc_add x y = (if x + y < 65536 then x + y else x + y - 65535)"

section \<open>TCP client connect\<close>

text \<open>Lines 192 to 200: the initial sequence number.\<close>

definition tcp_initial_sequence :: "env \<Rightarrow> ULONG \<Rightarrow> ULONG" where
  "tcp_initial_sequence e tx_sequence =
     (if tx_sequence = 0
      then push_bit NX_SHIFT_BY_16 (word_of_int (nx_rand e 0)) OR word_of_int (nx_rand e 1)
      else tx_sequence + 0x10000 + word_of_int (nx_rand e 0))"

text \<open>Lines 190 to 230: the socket is made ready for a new connection.\<close>

definition tcp_connect_prepare :: "env \<Rightarrow> addr \<Rightarrow> NX_TCP_SOCKET \<Rightarrow> NX_TCP_SOCKET" where
  "tcp_connect_prepare e outgoing_interface s =
     (let s = s\<lparr>nx_tcp_socket_connect_interface := outgoing_interface\<rparr>;
          s = s\<lparr>nx_tcp_socket_tx_sequence := tcp_initial_sequence e (nx_tcp_socket_tx_sequence s)\<rparr>;
          s = s\<lparr>nx_tcp_socket_rx_window_current := nx_tcp_socket_rx_window_default s\<rparr>;
          s = s\<lparr>nx_tcp_socket_rx_window_last_sent := nx_tcp_socket_rx_window_default s\<rparr>;
          s = s\<lparr>nx_tcp_socket_fin_received := NX_FALSE\<rparr>;
          s = s\<lparr>nx_tcp_socket_tx_sequence := nx_tcp_socket_tx_sequence s + 1\<rparr>;
          s = s\<lparr>nx_tcp_socket_timeout := nx_tcp_socket_timeout_rate s\<rparr>;
          s = s\<lparr>nx_tcp_socket_timeout_retries := 0\<rparr>
      in s\<lparr>nx_tcp_socket_tx_window_congestion := 0,
            nx_tcp_socket_tx_outstanding_bytes := 0,
            nx_tcp_socket_packets_sent := 0,
            nx_tcp_socket_bytes_sent := 0,
            nx_tcp_socket_packets_received := 0,
            nx_tcp_socket_bytes_received := 0,
            nx_tcp_socket_retransmit_packets := 0,
            nx_tcp_socket_checksum_errors := 0,
            nx_tcp_socket_transmit_sent_head := NX_NULL,
            nx_tcp_socket_transmit_sent_tail := NX_NULL,
            nx_tcp_socket_transmit_sent_count := 0,
            nx_tcp_socket_receive_queue_count := 0,
            nx_tcp_socket_receive_queue_head := NX_NULL,
            nx_tcp_socket_receive_queue_tail := NX_NULL\<rparr>)"

text \<open>
  Lines 232 to 281: the SYN is sent and the caller waits, or does not wait, for
  the connection.
\<close>

definition tcp_connect_send_syn ::
  "nx_config \<Rightarrow> env \<Rightarrow> world \<Rightarrow> trace \<Rightarrow> addr \<Rightarrow> addr \<Rightarrow> ULONG \<Rightarrow> ULONG
     \<Rightarrow> fault + (UINT \<times> world \<times> trace)"
where
  "tcp_connect_send_syn cfg e w2 tr1 socket_ptr ip_ptr seq wait_option =
     (let w3 = nx_tcp_packet_send_syn e w2 socket_ptr seq;
          tr2 = tr1 @ [(NX_TCP_PACKET_SEND_SYN socket_ptr seq, w2)]
      in
      case load (tcp_sockets w3) socket_ptr of
        Inl f \<Rightarrow> Inl f
      | Inr s4 \<Rightarrow>
      if nx_tcp_socket_state s4 = NX_TCP_ESTABLISHED
      then Inr (NX_SUCCESS, w3, tr2 @ [(TX_MUTEX_PUT ip_ptr, w3)])
      else if wait_option \<noteq> 0 \<and> tx_thread_current_ptr w3 \<noteq> address_nx_ip_thread cfg ip_ptr
      then
       (let w4 = nx_tcp_socket_thread_suspend e w3 socket_ptr wait_option;
            tr3 = tr2 @ [(NX_TCP_SOCKET_THREAD_SUSPEND socket_ptr NX_TCP_CONNECT_CLEANUP ip_ptr
                            wait_option, w3)]
        in
        case load (threads w4) (tx_thread_current_ptr w4) of
          Inl f \<Rightarrow> Inl f
        | Inr th \<Rightarrow>
        if tx_thread_suspend_status th \<noteq> 0
        then
         (case load (tcp_sockets w4) socket_ptr of
            Inl f \<Rightarrow> Inl f
          | Inr s5 \<Rightarrow>
            Inr (tx_thread_suspend_status th,
                 w4\<lparr>tcp_sockets := (tcp_sockets w4)
                        (socket_ptr \<mapsto> s5\<lparr>nx_tcp_socket_state := NX_TCP_CLOSED\<rparr>)\<rparr>,
                 tr3))
        else Inr (tx_thread_suspend_status th, w4, tr3))
      else Inr (NX_IN_PROGRESS, w3, tr2 @ [(TX_MUTEX_PUT ip_ptr, w3)]))"

text \<open>The whole function; lines 98 to 230 are written out here.\<close>

definition nx_tcp_client_socket_connect ::
  "nx_config \<Rightarrow> env \<Rightarrow> world \<Rightarrow> addr \<Rightarrow> ULONG \<Rightarrow> UINT \<Rightarrow> ULONG \<Rightarrow> fault + (UINT \<times> world \<times> trace)"
where
  "nx_tcp_client_socket_connect cfg e w0 socket_ptr server_ip server_port wait_option =
     (case load (tcp_sockets w0) socket_ptr of
        Inl f \<Rightarrow> Inl f
      | Inr s0 \<Rightarrow>
     (let ip_ptr = nx_tcp_socket_ip_ptr s0 in
      case load (ips w0) ip_ptr of
        Inl f \<Rightarrow> Inl f
      | Inr ip0 \<Rightarrow>
     (let tr0 = [(TX_MUTEX_GET ip_ptr, w0)] in
      if nx_tcp_socket_bound_next s0 = NX_NULL
      then Inr (NX_NOT_BOUND, w0, tr0 @ [(TX_MUTEX_PUT ip_ptr, w0)])
      else if nx_tcp_socket_state s0 \<noteq> NX_TCP_CLOSED
      then Inr (NX_NOT_CLOSED, w0, tr0 @ [(TX_MUTEX_PUT ip_ptr, w0)])
      else
     (case nx_ip_route_find e w0 ip_ptr server_ip NX_NULL (nx_tcp_socket_next_hop_address s0) of
        (route_status, outgoing_interface, next_hop) \<Rightarrow>
     (let s1 = s0\<lparr>nx_tcp_socket_next_hop_address := next_hop\<rparr>;
          w1 = w0\<lparr>tcp_sockets := (tcp_sockets w0)(socket_ptr \<mapsto> s1)\<rparr>;
          tr1 = tr0 @ [(NX_IP_ROUTE_FIND ip_ptr server_ip, w0)]
      in
      if route_status \<noteq> NX_SUCCESS
      then Inr (NX_IP_ADDRESS_ERROR, w1, tr1 @ [(TX_MUTEX_PUT ip_ptr, w1)])
      else
     (let ip1 = (if NX_DISABLE_TCP_INFO cfg then ip0
                 else ip0\<lparr>nx_ip_tcp_active_connections := nx_ip_tcp_active_connections ip0 + 1,
                          nx_ip_tcp_connections := nx_ip_tcp_connections ip0 + 1\<rparr>);
          s2 = s1\<lparr>nx_tcp_socket_state := NX_TCP_SYN_SENT,
                  nx_tcp_socket_connect_ip := server_ip,
                  nx_tcp_socket_connect_port := server_port\<rparr>
      in
      case load (interfaces w1) outgoing_interface of
        Inl f \<Rightarrow> Inl f
      | Inr itf \<Rightarrow>
      if unat (nx_interface_ip_mtu_size itf) < sizeof_NX_IP_HEADER cfg + sizeof_NX_TCP_HEADER cfg
      then
       (let ip2 = (if NX_DISABLE_TCP_INFO cfg then ip1
                   else ip1\<lparr>nx_ip_tcp_active_connections := nx_ip_tcp_active_connections ip1 - 1,
                            nx_ip_tcp_connections := nx_ip_tcp_connections ip1 - 1\<rparr>);
            s3 = s2\<lparr>nx_tcp_socket_state := NX_TCP_CLOSED,
                    nx_tcp_socket_connect_ip := 0,
                    nx_tcp_socket_connect_port := 0,
                    nx_tcp_socket_next_hop_address := 0\<rparr>;
            w2 = w1\<lparr>ips := (ips w1)(ip_ptr \<mapsto> ip2),
                    tcp_sockets := (tcp_sockets w1)(socket_ptr \<mapsto> s3)\<rparr>
        in Inr (NX_INVALID_INTERFACE, w2, tr1 @ [(TX_MUTEX_PUT ip_ptr, w2)]))
      else
     (let s3 = tcp_connect_prepare e outgoing_interface s2;
          w2 = w1\<lparr>ips := (ips w1)(ip_ptr \<mapsto> ip1),
                  tcp_sockets := (tcp_sockets w1)(socket_ptr \<mapsto> s3)\<rparr>
      in tcp_connect_send_syn cfg e w2 tr1 socket_ptr ip_ptr
           (nx_tcp_socket_tx_sequence s3 - 1) wait_option)))))))"

section \<open>UDP bind\<close>

definition NX_ANY_PORT :: UINT where "NX_ANY_PORT = 0"
definition NX_SEARCH_PORT_START :: UINT where "NX_SEARCH_PORT_START = 0xC000"
definition NX_MAX_PORT :: UINT where "NX_MAX_PORT = 0xFFFF"

text \<open>Line 133: the bucket of a port.\<close>

definition udp_hash :: "nx_config \<Rightarrow> UINT \<Rightarrow> UINT" where
  "udp_hash cfg port = (port + drop_bit 8 port) AND NX_UDP_PORT_TABLE_MASK cfg"

definition udp_update :: "addr \<Rightarrow> (NX_UDP_SOCKET \<Rightarrow> NX_UDP_SOCKET) \<Rightarrow> world \<Rightarrow> fault + world" where
  "udp_update p f w =
     (case load (udp_sockets w) p of
        Inl e \<Rightarrow> Inl e
      | Inr s \<Rightarrow> Inr (w\<lparr>udp_sockets := (udp_sockets w)(p \<mapsto> f s)\<rparr>))"

definition thread_update :: "addr \<Rightarrow> (TX_THREAD \<Rightarrow> TX_THREAD) \<Rightarrow> world \<Rightarrow> fault + world" where
  "thread_update p f w =
     (case load (threads w) p of
        Inl e \<Rightarrow> Inl e
      | Inr t \<Rightarrow> Inr (w\<lparr>threads := (threads w)(p \<mapsto> f t)\<rparr>))"

text \<open>
  Lines 144 to 158: the walk round the circular list of a bucket.  It stops at
  the first socket that holds the port, or when it is back at \<open>end_ptr\<close>; on a
  list that never comes back it does not return, which is the value \<open>None\<close>.
\<close>

partial_function (option) udp_port_search ::
  "(addr \<rightharpoonup> NX_UDP_SOCKET) \<Rightarrow> UINT \<Rightarrow> addr \<Rightarrow> addr \<Rightarrow> (fault + addr) option"
where
  "udp_port_search socks port end_ptr search_ptr =
     (case load socks search_ptr of
        Inl f \<Rightarrow> Some (Inl f)
      | Inr s \<Rightarrow>
          if nx_udp_socket_port s = port then Some (Inr search_ptr)
          else if nx_udp_socket_bound_next s \<noteq> end_ptr
          then udp_port_search socks port end_ptr (nx_udp_socket_bound_next s)
          else Some (Inr (nx_udp_socket_bound_next s)))"

text \<open>Lines 176 to 182: the socket goes to the end of a list that has members.\<close>

definition udp_bucket_append :: "world \<Rightarrow> addr \<Rightarrow> addr \<Rightarrow> fault + world" where
  "udp_bucket_append w head socket_ptr =
     (case udp_update socket_ptr (\<lambda>s. s\<lparr>nx_udp_socket_bound_next := head\<rparr>) w of
        Inl f \<Rightarrow> Inl f
      | Inr wa \<Rightarrow>
      case load (udp_sockets wa) head of
        Inl f \<Rightarrow> Inl f
      | Inr h \<Rightarrow>
      case udp_update socket_ptr
             (\<lambda>s. s\<lparr>nx_udp_socket_bound_previous := nx_udp_socket_bound_previous h\<rparr>) wa of
        Inl f \<Rightarrow> Inl f
      | Inr wb \<Rightarrow>
      case load (udp_sockets wb) head of
        Inl f \<Rightarrow> Inl f
      | Inr h' \<Rightarrow>
      case udp_update (nx_udp_socket_bound_previous h')
             (\<lambda>s. s\<lparr>nx_udp_socket_bound_next := socket_ptr\<rparr>) wb of
        Inl f \<Rightarrow> Inl f
      | Inr wc \<Rightarrow>
        udp_update head (\<lambda>s. s\<lparr>nx_udp_socket_bound_previous := socket_ptr\<rparr>) wc)"

text \<open>Lines 189 to 191: the socket becomes the only member of an empty bucket.\<close>

definition udp_bucket_first :: "world \<Rightarrow> addr \<Rightarrow> UINT \<Rightarrow> addr \<Rightarrow> fault + world" where
  "udp_bucket_first w ip_ptr index socket_ptr =
     (case udp_update socket_ptr
             (\<lambda>s. s\<lparr>nx_udp_socket_bound_next := socket_ptr,
                     nx_udp_socket_bound_previous := socket_ptr\<rparr>) w of
        Inl f \<Rightarrow> Inl f
      | Inr wa \<Rightarrow>
      case load (ips wa) ip_ptr of
        Inl f \<Rightarrow> Inl f
      | Inr ip \<Rightarrow>
        Inr (wa\<lparr>ips := (ips wa)(ip_ptr \<mapsto>
               ip\<lparr>nx_ip_udp_port_table := (nx_ip_udp_port_table ip)(index := socket_ptr)\<rparr>)\<rparr>))"

text \<open>
  Lines 212 to 264: the calling thread is queued on the socket that owns the
  port, up to the point where the mutex is released.
\<close>

definition udp_bind_suspend_prepare :: "world \<Rightarrow> addr \<Rightarrow> addr \<Rightarrow> ULONG \<Rightarrow> fault + world" where
  "udp_bind_suspend_prepare w socket_ptr search_ptr wait_option =
     (let thread_ptr = tx_thread_current_ptr w in
      case thread_update thread_ptr
             (\<lambda>t. t\<lparr>tx_thread_suspend_cleanup := NX_UDP_BIND_CLEANUP,
                     tx_thread_suspend_control_block := socket_ptr\<rparr>) w of
        Inl f \<Rightarrow> Inl f
      | Inr wa \<Rightarrow>
      case udp_update socket_ptr
             (\<lambda>s. s\<lparr>nx_udp_socket_bound_previous := search_ptr,
                     nx_udp_socket_bind_in_progress := thread_ptr\<rparr>) wa of
        Inl f \<Rightarrow> Inl f
      | Inr wb \<Rightarrow>
      case load (udp_sockets wb) search_ptr of
        Inl f \<Rightarrow> Inl f
      | Inr owner \<Rightarrow>
      case
       (if nx_udp_socket_bind_suspension_list owner \<noteq> NX_NULL
        then
         (let list_head = nx_udp_socket_bind_suspension_list owner in
          case load (threads wb) list_head of
            Inl f \<Rightarrow> Inl f
          | Inr lh \<Rightarrow>
          case thread_update thread_ptr
                 (\<lambda>t. t\<lparr>tx_thread_suspended_next := list_head,
                         tx_thread_suspended_previous := tx_thread_suspended_previous lh\<rparr>) wb of
            Inl f \<Rightarrow> Inl f
          | Inr wc \<Rightarrow>
          case load (threads wc) list_head of
            Inl f \<Rightarrow> Inl f
          | Inr lh' \<Rightarrow>
          case thread_update (tx_thread_suspended_previous lh')
                 (\<lambda>t. t\<lparr>tx_thread_suspended_next := thread_ptr\<rparr>) wc of
            Inl f \<Rightarrow> Inl f
          | Inr wd \<Rightarrow>
            thread_update list_head (\<lambda>t. t\<lparr>tx_thread_suspended_previous := thread_ptr\<rparr>) wd)
        else
         (case udp_update search_ptr
                 (\<lambda>s. s\<lparr>nx_udp_socket_bind_suspension_list := thread_ptr\<rparr>) wb of
            Inl f \<Rightarrow> Inl f
          | Inr wc \<Rightarrow>
            thread_update thread_ptr
              (\<lambda>t. t\<lparr>tx_thread_suspended_next := thread_ptr,
                      tx_thread_suspended_previous := thread_ptr\<rparr>) wc)) of
        Inl f \<Rightarrow> Inl f
      | Inr we \<Rightarrow>
      case udp_update search_ptr
             (\<lambda>s. s\<lparr>nx_udp_socket_bind_suspended_count :=
                       nx_udp_socket_bind_suspended_count s + 1\<rparr>) we of
        Inl f \<Rightarrow> Inl f
      | Inr wh \<Rightarrow>
      case thread_update thread_ptr
             (\<lambda>t. t\<lparr>tx_thread_state := TX_TCP_IP, tx_thread_suspending := TX_TRUE\<rparr>) wh of
        Inl f \<Rightarrow> Inl f
      | Inr wg \<Rightarrow>
        thread_update thread_ptr
          (\<lambda>t. t\<lparr>tx_timer_internal_remaining_ticks := wait_option\<rparr>)
          (wg\<lparr>tx_thread_preempt_disable := tx_thread_preempt_disable wg + 1\<rparr>))"

text \<open>Lines 129 to 286: the bind once the port number is known.\<close>

definition udp_bind_port ::
  "nx_config \<Rightarrow> env \<Rightarrow> world \<Rightarrow> trace \<Rightarrow> addr \<Rightarrow> addr \<Rightarrow> UINT \<Rightarrow> ULONG
     \<Rightarrow> (fault + (UINT \<times> world \<times> trace)) option"
where
  "udp_bind_port cfg e w0 tr0 socket_ptr ip_ptr port wait_option =
     (case udp_update socket_ptr (\<lambda>s. s\<lparr>nx_udp_socket_port := port\<rparr>) w0 of
        Inl f \<Rightarrow> Some (Inl f)
      | Inr w1 \<Rightarrow>
      case load (ips w1) ip_ptr of
        Inl f \<Rightarrow> Some (Inl f)
      | Inr ip \<Rightarrow>
     (let index = udp_hash cfg port;
          head = nx_ip_udp_port_table ip index
      in
      case (if head \<noteq> NX_NULL then udp_port_search (udp_sockets w1) port head head
            else Some (Inr head)) of
        None \<Rightarrow> None
      | Some (Inl f) \<Rightarrow> Some (Inl f)
      | Some (Inr search_ptr) \<Rightarrow>
      case (if search_ptr = NX_NULL then Inr True
            else case load (udp_sockets w1) search_ptr of
                   Inl f \<Rightarrow> Inl f
                 | Inr found \<Rightarrow> Inr (nx_udp_socket_port found \<noteq> port)) of
        Inl f \<Rightarrow> Some (Inl f)
      | Inr available \<Rightarrow>
      if available
      then
       (case (if search_ptr \<noteq> NX_NULL then udp_bucket_append w1 head socket_ptr
              else udp_bucket_first w1 ip_ptr index socket_ptr) of
          Inl f \<Rightarrow> Some (Inl f)
        | Inr w2 \<Rightarrow> Some (Inr (NX_SUCCESS, w2, tr0 @ [(TX_MUTEX_PUT ip_ptr, w2)])))
      else if wait_option \<noteq> 0
      then
       (case udp_bind_suspend_prepare w1 socket_ptr search_ptr wait_option of
          Inl f \<Rightarrow> Some (Inl f)
        | Inr w2 \<Rightarrow>
         (let thread_ptr = tx_thread_current_ptr w1;
              w3 = tx_thread_system_suspend e w2 thread_ptr
          in
          case load (threads w3) thread_ptr of
            Inl f \<Rightarrow> Some (Inl f)
          | Inr t \<Rightarrow>
            Some (Inr (tx_thread_suspend_status t, w3,
                       tr0 @ [(TX_MUTEX_PUT ip_ptr, w2), (TX_THREAD_SYSTEM_SUSPEND thread_ptr, w2)]))))
      else Some (Inr (NX_PORT_UNAVAILABLE, w1, tr0 @ [(TX_MUTEX_PUT ip_ptr, w1)]))))"

definition nx_udp_socket_bind ::
  "nx_config \<Rightarrow> env \<Rightarrow> world \<Rightarrow> addr \<Rightarrow> UINT \<Rightarrow> ULONG
     \<Rightarrow> (fault + (UINT \<times> world \<times> trace)) option"
where
  "nx_udp_socket_bind cfg e w0 socket_ptr port wait_option =
     (case load (udp_sockets w0) socket_ptr of
        Inl f \<Rightarrow> Some (Inl f)
      | Inr s0 \<Rightarrow>
     (let ip_ptr = nx_udp_socket_ip_ptr s0 in
      case load (ips w0) ip_ptr of
        Inl f \<Rightarrow> Some (Inl f)
      | Inr ip0 \<Rightarrow>
     (let tr0 = [(TX_MUTEX_GET ip_ptr, w0)] in
      if nx_udp_socket_bound_next s0 \<noteq> NX_NULL \<or> nx_udp_socket_bind_in_progress s0 \<noteq> NX_NULL
      then Some (Inr (NX_ALREADY_BOUND, w0, tr0 @ [(TX_MUTEX_PUT ip_ptr, w0)]))
      else if port = NX_ANY_PORT
      then
       (let start = NX_SEARCH_PORT_START
                      + word_of_int (nx_rand e 0 smod ((uint NX_MAX_PORT + 1) - uint NX_SEARCH_PORT_START));
            tr1 = tr0 @ [(NX_UDP_FREE_PORT_FIND ip_ptr start, w0)]
        in
        case nx_udp_free_port_find e w0 ip_ptr start of (find_status, free_port) \<Rightarrow>
        if find_status \<noteq> NX_SUCCESS
        then Some (Inr (NX_NO_FREE_PORTS, w0, tr1 @ [(TX_MUTEX_PUT ip_ptr, w0)]))
        else udp_bind_port cfg e w0 tr1 socket_ptr ip_ptr free_port wait_option)
      else udp_bind_port cfg e w0 tr0 socket_ptr ip_ptr port wait_option)))"

subsection \<open>Well-formed port table\<close>

text \<open>
  \<open>bucket_cycle socks xs\<close>: the sockets at the addresses \<open>xs\<close>, in this order,
  are linked into one circular doubly-linked list, so that the neighbours of a
  member are members.  \<open>bucket_ok\<close>: bucket \<open>i\<close> with head pointer \<open>head\<close> holds
  exactly that list, and every member's port hashes to \<open>i\<close>.
  \<open>port_table_ok\<close>: every bucket of the table of the IP instance is so, where
  \<open>buckets i\<close> lists the members of bucket \<open>i\<close> from its head.
\<close>

definition bucket_cycle :: "(addr \<rightharpoonup> NX_UDP_SOCKET) \<Rightarrow> addr list \<Rightarrow> bool" where
  "bucket_cycle socks xs \<longleftrightarrow>
     distinct xs \<and> NX_NULL \<notin> set xs \<and>
     (\<forall>k<length xs. \<exists>s. socks (xs ! k) = Some s
        \<and> nx_udp_socket_bound_next s = xs ! ((k + 1) mod length xs)
        \<and> nx_udp_socket_bound_previous s = xs ! ((k + length xs - 1) mod length xs))"

definition bucket_ok ::
  "nx_config \<Rightarrow> (addr \<rightharpoonup> NX_UDP_SOCKET) \<Rightarrow> UINT \<Rightarrow> addr \<Rightarrow> addr list \<Rightarrow> bool" where
  "bucket_ok cfg socks i head xs \<longleftrightarrow>
     (if xs = [] then head = NX_NULL else head = hd xs) \<and> bucket_cycle socks xs \<and>
     (\<forall>a\<in>set xs. \<forall>s. socks a = Some s \<longrightarrow> udp_hash cfg (nx_udp_socket_port s) = i)"

definition port_table_ok :: "nx_config \<Rightarrow> world \<Rightarrow> addr \<Rightarrow> (UINT \<Rightarrow> addr list) \<Rightarrow> bool" where
  "port_table_ok cfg w ip_ptr buckets \<longleftrightarrow>
     (\<exists>ip. load (ips w) ip_ptr = Inr ip \<and>
        (\<forall>i. i \<le> NX_UDP_PORT_TABLE_MASK cfg \<longrightarrow>
           bucket_ok cfg (udp_sockets w) i (nx_ip_udp_port_table ip i) (buckets i)))"

subsection \<open>The port table in the words of the specification\<close>

text \<open>
  Modelled from the spec: the number \<open>P\<close> of buckets of the port table.  The
  header that declares the table is not among the sources; the bind masks the
  index with \<^verbatim>\<open>NX_UDP_PORT_TABLE_MASK\<close>, which the spec writes \<open>P - 1\<close>.
\<close>

definition udp_port_table_size :: "nx_config \<Rightarrow> nat" where
  "udp_port_table_size cfg = unat (NX_UDP_PORT_TABLE_MASK cfg) + 1"

text \<open>
  The bucket index as the spec writes it, \<^verbatim>\<open>(port + (port >> 8)) & (P - 1)\<close>, on
  natural numbers, where nothing wraps round; it is compared with \<open>udp_hash\<close>,
  which is line 133 of the source on 32-bit words.
\<close>

definition bucket_index :: "nat \<Rightarrow> nat \<Rightarrow> nat" where
  "bucket_index P port = (port + drop_bit 8 port) AND (P - 1)"

subsection \<open>The owner's unbind\<close>

text \<open>
  Modelled from the spec: the owner's unbind when a thread waits for its port
  (\<^verbatim>\<open>_nx_udp_socket_unbind\<close>, which is not among the sources).  The spec says of
  a bind that has suspended that its return value is the suspend status of the
  thread "as set by whoever wakes it (the owner's unbind or a timeout)", that
  "wakers must publish state before waking", and of the owner's unbind that it
  "must wake B and hand it the port.  B returns success; bucket now contains B
  only".  So the owner leaves the circular list of its bucket
  (\<open>udp_bucket_unlink\<close>); the socket of the first thread on the owner's waiting
  list is put on the bucket the way step 6 of the bind does it, by the two
  splices embedded above; its \<open>bind_in_progress\<close> is cleared; and the thread gets
  the suspend status \<^verbatim>\<open>NX_SUCCESS\<close>.  What becomes of the other waiting threads
  the spec does not say, and the model leaves their list alone.
\<close>

definition udp_bucket_unlink :: "world \<Rightarrow> addr \<Rightarrow> UINT \<Rightarrow> addr \<Rightarrow> fault + world" where
  "udp_bucket_unlink w ip_ptr index socket_ptr =
     (case load (udp_sockets w) socket_ptr of
        Inl f \<Rightarrow> Inl f
      | Inr s \<Rightarrow>
      case load (ips w) ip_ptr of
        Inl f \<Rightarrow> Inl f
      | Inr ip \<Rightarrow>
      if nx_udp_socket_bound_next s = socket_ptr
      then
        udp_update socket_ptr (\<lambda>s. s\<lparr>nx_udp_socket_bound_next := NX_NULL\<rparr>)
          (w\<lparr>ips := (ips w)(ip_ptr \<mapsto>
               ip\<lparr>nx_ip_udp_port_table := (nx_ip_udp_port_table ip)(index := NX_NULL)\<rparr>)\<rparr>)
      else
      case udp_update (nx_udp_socket_bound_next s)
             (\<lambda>n. n\<lparr>nx_udp_socket_bound_previous := nx_udp_socket_bound_previous s\<rparr>) w of
        Inl f \<Rightarrow> Inl f
      | Inr wa \<Rightarrow>
      case udp_update (nx_udp_socket_bound_previous s)
             (\<lambda>p. p\<lparr>nx_udp_socket_bound_next := nx_udp_socket_bound_next s\<rparr>) wa of
        Inl f \<Rightarrow> Inl f
      | Inr wb \<Rightarrow>
        udp_update socket_ptr (\<lambda>s. s\<lparr>nx_udp_socket_bound_next := NX_NULL\<rparr>)
          (if nx_ip_udp_port_table ip index = socket_ptr
           then wb\<lparr>ips := (ips wb)(ip_ptr \<mapsto>
                  ip\<lparr>nx_ip_udp_port_table :=
                       (nx_ip_udp_port_table ip)(index := nx_udp_socket_bound_next s)\<rparr>)\<rparr>
           else wb))"

definition udp_unbind_handover :: "nx_config \<Rightarrow> world \<Rightarrow> addr \<Rightarrow> fault + world" where
  "udp_unbind_handover cfg w owner =
     (case load (udp_sockets w) owner of
        Inl f \<Rightarrow> Inl f
      | Inr so \<Rightarrow>
     (let ip_ptr = nx_udp_socket_ip_ptr so;
          index = udp_hash cfg (nx_udp_socket_port so);
          thread_ptr = nx_udp_socket_bind_suspension_list so
      in
      case udp_bucket_unlink w ip_ptr index owner of
        Inl f \<Rightarrow> Inl f
      | Inr wa \<Rightarrow>
      case load (threads wa) thread_ptr of
        Inl f \<Rightarrow> Inl f
      | Inr t \<Rightarrow>
     (let new_socket = tx_thread_suspend_control_block t in
      case udp_update new_socket (\<lambda>s. s\<lparr>nx_udp_socket_bind_in_progress := NX_NULL\<rparr>) wa of
        Inl f \<Rightarrow> Inl f
      | Inr wb \<Rightarrow>
      case load (ips wb) ip_ptr of
        Inl f \<Rightarrow> Inl f
      | Inr ip \<Rightarrow>
      case (if nx_ip_udp_port_table ip index \<noteq> NX_NULL
            then udp_bucket_append wb (nx_ip_udp_port_table ip index) new_socket
            else udp_bucket_first wb ip_ptr index new_socket) of
        Inl f \<Rightarrow> Inl f
      | Inr wc \<Rightarrow>
        thread_update thread_ptr
          (\<lambda>t. t\<lparr>tx_thread_suspend_cleanup := NO_CLEANUP,
                  tx_thread_suspend_status := NX_SUCCESS\<rparr>) wc)))"

text \<open>
  Modelled from the spec: the state \<open>WaitingForPortFree\<close> in which the owner's
  unbind finds the socket.  The table of the IP instance is well formed with the
  owner on the bucket of its port; the thread is the first on the owner's
  waiting list and its control block is the socket; the socket is as the bind
  left it at line 130 and after: the port \<open>p\<close> recorded, which is the owner's
  port, and \<open>bound_next\<close> null.
\<close>

definition waiting_for_port ::
  "nx_config \<Rightarrow> world \<Rightarrow> addr \<Rightarrow> (UINT \<Rightarrow> addr list) \<Rightarrow> addr \<Rightarrow> addr \<Rightarrow> addr \<Rightarrow> UINT \<Rightarrow> bool"
where
  "waiting_for_port cfg w ip_ptr buckets owner socket_ptr thread_ptr p \<longleftrightarrow>
     (\<exists>so sb t.
        load (udp_sockets w) owner = Inr so \<and> load (udp_sockets w) socket_ptr = Inr sb \<and>
        load (threads w) thread_ptr = Inr t \<and>
        port_table_ok cfg w ip_ptr buckets \<and>
        nx_udp_socket_ip_ptr so = ip_ptr \<and>
        owner \<in> set (buckets (udp_hash cfg p)) \<and>
        nx_udp_socket_port so = p \<and> nx_udp_socket_port sb = p \<and>
        nx_udp_socket_bound_next sb = NX_NULL \<and>
        nx_udp_socket_bind_suspension_list so = thread_ptr \<and>
        tx_thread_suspend_control_block t = socket_ptr)"

section \<open>A concrete system\<close>

text \<open>
  One IP instance at address 1 with two interfaces (MTU 1500 and MTU 20), one
  packet, a bound TCP socket in the closed state, UDP socket 10 bound to port
  5000 (bucket 27 of 32), UDP socket 20 unbound, and one application thread.
  Variants of it: the router speaks IGMPv1; the TCP socket is established; a bind
  of socket 20 to port 5000 has failed; a second thread, 401, already waits for
  port 5000.
\<close>

definition ex_cfg :: nx_config where
  "ex_cfg = \<lparr>NX_DISABLE_IGMPV2 = False, NX_DISABLE_IGMP_INFO = False, NX_DISABLE_TCP_INFO = False,
             NX_LITTLE_ENDIAN = True, sizeof_NX_IP_HEADER = 20, sizeof_NX_TCP_HEADER = 20,
             NX_IGMP_PACKET = 36, NX_UDP_PORT_TABLE_MASK = 0x1F,
             address_nx_ip_interface = (\<lambda>ip i. ip + 1000 + unat i),
             address_nx_ip_thread = (\<lambda>ip. ip + 2000)\<rparr>"

definition ex_ip :: NX_IP where
  "ex_ip = \<lparr>nx_ip_default_packet_pool = 100, nx_ip_igmp_router_version = 2,
            nx_ip_igmp_reports_sent = 0, nx_ip_tcp_active_connections = 0,
            nx_ip_tcp_connections = 0, nx_ip_udp_port_table = (\<lambda>i. 0)(27 := 10)\<rparr>"

definition ex_packet :: NX_PACKET where
  "ex_packet = \<lparr>nx_packet_length = 0, nx_packet_prepend_ptr = 64, nx_packet_ip_interface = 0,
                nx_packet_next_hop_address = 0, nx_packet_data = (\<lambda>a. 0)\<rparr>"

definition ex_tcp_socket :: NX_TCP_SOCKET where
  "ex_tcp_socket =
     \<lparr>nx_tcp_socket_ip_ptr = 1, nx_tcp_socket_bound_next = 30, nx_tcp_socket_state = NX_TCP_CLOSED,
      nx_tcp_socket_connect_ip = 0, nx_tcp_socket_connect_port = 0,
      nx_tcp_socket_next_hop_address = 0, nx_tcp_socket_connect_interface = 0,
      nx_tcp_socket_tx_sequence = 0, nx_tcp_socket_rx_window_default = 8192,
      nx_tcp_socket_rx_window_current = 0, nx_tcp_socket_rx_window_last_sent = 0,
      nx_tcp_socket_fin_received = 0, nx_tcp_socket_timeout = 0, nx_tcp_socket_timeout_rate = 100,
      nx_tcp_socket_timeout_retries = 0, nx_tcp_socket_tx_window_congestion = 0,
      nx_tcp_socket_tx_outstanding_bytes = 0, nx_tcp_socket_packets_sent = 0,
      nx_tcp_socket_bytes_sent = 0, nx_tcp_socket_packets_received = 0,
      nx_tcp_socket_bytes_received = 0, nx_tcp_socket_retransmit_packets = 0,
      nx_tcp_socket_checksum_errors = 0, nx_tcp_socket_transmit_sent_head = 0,
      nx_tcp_socket_transmit_sent_tail = 0, nx_tcp_socket_transmit_sent_count = 0,
      nx_tcp_socket_receive_queue_count = 0, nx_tcp_socket_receive_queue_head = 0,
      nx_tcp_socket_receive_queue_tail = 0, nx_tcp_socket_connect_suspended_thread = 0\<rparr>"

definition ex_udp_bound :: NX_UDP_SOCKET where
  "ex_udp_bound = \<lparr>nx_udp_socket_ip_ptr = 1, nx_udp_socket_port = 5000,
                   nx_udp_socket_bound_next = 10, nx_udp_socket_bound_previous = 10,
                   nx_udp_socket_bind_in_progress = 0, nx_udp_socket_bind_suspension_list = 0,
                   nx_udp_socket_bind_suspended_count = 0\<rparr>"

definition ex_udp_unbound :: NX_UDP_SOCKET where
  "ex_udp_unbound = \<lparr>nx_udp_socket_ip_ptr = 1, nx_udp_socket_port = 0,
                     nx_udp_socket_bound_next = 0, nx_udp_socket_bound_previous = 0,
                     nx_udp_socket_bind_in_progress = 0, nx_udp_socket_bind_suspension_list = 0,
                     nx_udp_socket_bind_suspended_count = 0\<rparr>"

definition ex_thread :: TX_THREAD where
  "ex_thread = \<lparr>tx_thread_suspend_cleanup = NO_CLEANUP, tx_thread_suspend_control_block = 0,
                tx_thread_suspended_next = 0, tx_thread_suspended_previous = 0,
                tx_thread_state = 0, tx_thread_suspending = 0,
                tx_timer_internal_remaining_ticks = 0, tx_thread_suspend_status = 0\<rparr>"

definition ex_world :: world where
  "ex_world = \<lparr>ips = [1 \<mapsto> ex_ip],
               interfaces = [1001 \<mapsto> \<lparr>nx_interface_ip_mtu_size = 1500\<rparr>,
                             1002 \<mapsto> \<lparr>nx_interface_ip_mtu_size = 20\<rparr>],
               packets = [500 \<mapsto> ex_packet],
               tcp_sockets = [30 \<mapsto> ex_tcp_socket],
               udp_sockets = [10 \<mapsto> ex_udp_bound, 20 \<mapsto> ex_udp_unbound],
               threads = [400 \<mapsto> ex_thread],
               tx_thread_current_ptr = 400,
               tx_thread_preempt_disable = 0\<rparr>"

definition ex_world_v1 :: world where
  "ex_world_v1 = ex_world\<lparr>ips := [1 \<mapsto> ex_ip\<lparr>nx_ip_igmp_router_version := 1\<rparr>]\<rparr>"

definition ex_world_established :: world where
  "ex_world_established =
     ex_world\<lparr>tcp_sockets := [30 \<mapsto> ex_tcp_socket\<lparr>nx_tcp_socket_state := NX_TCP_ESTABLISHED,
                                    nx_tcp_socket_connect_ip := 0x0A000001,
                                    nx_tcp_socket_connect_port := 80\<rparr>]\<rparr>"

definition ex_world_collided :: world where
  "ex_world_collided =
     ex_world\<lparr>udp_sockets := [10 \<mapsto> ex_udp_bound,
                                 20 \<mapsto> ex_udp_unbound\<lparr>nx_udp_socket_port := 5000\<rparr>]\<rparr>"

definition ex_world_waiting :: world where
  "ex_world_waiting =
     ex_world\<lparr>udp_sockets := [10 \<mapsto> ex_udp_bound\<lparr>nx_udp_socket_bind_suspension_list := 401,
                                                   nx_udp_socket_bind_suspended_count := 1\<rparr>,
                                 20 \<mapsto> ex_udp_unbound],
               threads := [400 \<mapsto> ex_thread,
                           401 \<mapsto> ex_thread\<lparr>tx_thread_suspended_next := 401,
                                               tx_thread_suspended_previous := 401\<rparr>]\<rparr>"

text \<open>The memory when a bind of socket 20 to port 5000 with a wait suspends.\<close>

definition ex_world_suspended :: world where
  "ex_world_suspended =
     ex_world\<lparr>udp_sockets := [10 \<mapsto> ex_udp_bound\<lparr>nx_udp_socket_bind_suspension_list := 400,
                                                   nx_udp_socket_bind_suspended_count := 1\<rparr>,
                                 20 \<mapsto> ex_udp_unbound\<lparr>nx_udp_socket_port := 5000,
                                                     nx_udp_socket_bound_previous := 10,
                                                     nx_udp_socket_bind_in_progress := 400\<rparr>],
               threads := [400 \<mapsto> \<lparr>tx_thread_suspend_cleanup = NX_UDP_BIND_CLEANUP,
                                    tx_thread_suspend_control_block = 20,
                                    tx_thread_suspended_next = 400,
                                    tx_thread_suspended_previous = 400,
                                    tx_thread_state = TX_TCP_IP, tx_thread_suspending = TX_TRUE,
                                    tx_timer_internal_remaining_ticks = 5,
                                    tx_thread_suspend_status = 0\<rparr>],
               tx_thread_preempt_disable := 1\<rparr>"

definition ex_buckets :: "UINT \<Rightarrow> addr list" where
  "ex_buckets = (\<lambda>i. [])(27 := [10])"

text \<open>
  The collaborators of the concrete system: the allocator hands out packet 500,
  sending and the SYN leave the memory alone, destination \<open>10.0.0.2\<close> is routed
  to the interface with the small MTU and every other one to the first
  interface, a thread that waits for a connection or for a port wakes with a
  failure status, and \<^verbatim>\<open>NX_RAND\<close> yields \<open>0x1234\<close>, \<open>0x1235\<close>, and so on.
\<close>

definition ex_wake :: "UINT \<Rightarrow> world \<Rightarrow> world" where
  "ex_wake status w =
     (case threads w (tx_thread_current_ptr w) of
        None \<Rightarrow> w
      | Some t \<Rightarrow> w\<lparr>threads := (threads w)
                        (tx_thread_current_ptr w \<mapsto> t\<lparr>tx_thread_suspend_status := status\<rparr>)\<rparr>)"

definition ex_env :: env where
  "ex_env = \<lparr>nx_packet_allocate = (\<lambda>w pool size wait. (0, 500, w)),
             nx_ip_packet_send = (\<lambda>w ip p d. w),
             nx_ip_route_find = (\<lambda>w ip dst itf hop.
                if dst = 0x0A000002 then (0, 1002, dst) else (0, 1001, dst)),
             nx_tcp_packet_send_syn = (\<lambda>w s seq. w),
             nx_tcp_socket_thread_suspend = (\<lambda>w s wait. ex_wake 0x38 w),
             nx_udp_free_port_find = (\<lambda>w ip start. (0, start)),
             tx_thread_system_suspend = (\<lambda>w t. ex_wake 0x23 w),
             nx_rand = (\<lambda>k. 0x1234 + int k)\<rparr>"

text \<open>The same collaborators, but while the thread waits socket 10 unbinds.\<close>

definition ex_env_unbind :: env where
  "ex_env_unbind =
     ex_env\<lparr>tx_thread_system_suspend :=
               (\<lambda>w t. case udp_unbind_handover ex_cfg w 10 of Inl f \<Rightarrow> w | Inr w' \<Rightarrow> w')\<rparr>"


section \<open>Properties of the IGMP report\<close>

subsection \<open>Arithmetic of the fold\<close>

lemma fold16_step: "q * 65536 \<le> n \<Longrightarrow> n < (q + 1) * 65536 \<Longrightarrow> fold16 n = n - q * 65535"
proof -
  assume a: "q * 65536 \<le> n" "n < (q + 1) * 65536"
  have d: "n div 65536 = q" using a by (intro div_nat_eqI) (simp_all add: mult.commute)
  have "n mod 65536 = n - q * 65536" using d by (simp add: modulo_nat_def mult.commute)
  then show ?thesis using a d unfolding fold16_def by simp
qed

lemma fold16_0: "n < 65536 \<Longrightarrow> fold16 n = n" using fold16_step[of 0 n] by simp
lemma fold16_1: "65536 \<le> n \<Longrightarrow> n < 131072 \<Longrightarrow> fold16 n = n - 65535" using fold16_step[of 1 n] by simp
lemma fold16_2: "131072 \<le> n \<Longrightarrow> n < 196608 \<Longrightarrow> fold16 n = n - 131070" using fold16_step[of 2 n] by simp
lemma fold16_3: "196608 \<le> n \<Longrightarrow> n < 262144 \<Longrightarrow> fold16 n = n - 196605" using fold16_step[of 3 n] by simp

lemma fold16_twice:
  assumes "n < 262141"
  shows "fold16 (fold16 n) =
   (if n < 65536 then n else if n < 131071 then n - 65535 else if n < 196606 then n - 131070 else n - 196605)"
proof -
  consider "n < 65536" | "65536 \<le> n" "n < 131071" | "n = 131071" | "131072 \<le> n" "n < 196606"
    | "196606 \<le> n" "n < 196608" | "196608 \<le> n" "n < 262141" using assms by linarith
  then show ?thesis
  proof cases
    case 1 then show ?thesis by (simp add: fold16_0)
  next
    case 2 then show ?thesis by (simp add: fold16_1 fold16_0)
  next
    case 3 then show ?thesis by (simp add: fold16_1)
  next
    case 4 then show ?thesis by (simp add: fold16_2 fold16_0)
  next
    case 5 then show ?thesis by (simp add: fold16_2 fold16_1)
  next
    case 6 then show ?thesis by (simp add: fold16_3 fold16_0)
  qed
qed

lemma fold16_twice_oc_add:
  assumes "a < 65536" "b < 65536" "c < 65536" "d < 65536"
  shows "fold16 (fold16 (a + b + c + d)) = oc_add (oc_add (oc_add a b) c) d"
proof -
  have "a + b + c + d < 262141" using assms by linarith
  from fold16_twice[OF this] show ?thesis using assms unfolding oc_add_def by (auto split: if_splits)
qed

lemma fold16_twice_verify:
  assumes "a < 65536" "c < 65536" "d < 65536"
  shows "fold16 (fold16 (a + (65535 - fold16 (fold16 (a + c + d))) + c + d)) = 65535"
proof -
  have n: "a + c + d < 262141" using assms by linarith
  have m: "a + c + d < 196606" using assms by linarith
  have e: "a + (65535 - fold16 (fold16 (a + c + d))) + c + d \<in> {65535, 131070, 196605}"
    unfolding fold16_twice[OF n] using m by (auto split: if_splits)
  then show ?thesis by (auto simp: fold16_0 fold16_1 fold16_2)
qed

lemma fold16_twice_le: "n < 262141 \<Longrightarrow> fold16 (fold16 n) \<le> 65535"
  by (auto simp: fold16_twice)

lemma oc_add_0: "x < 65536 \<Longrightarrow> oc_add 0 x = x"
  by (simp add: oc_add_def)

subsection \<open>From words to numbers\<close>

lemma mask16: "(0xFFFF::32 word) = mask 16" by (simp add: mask_eq_exp_minus_1)
lemma mask8: "(0xFF::32 word) = mask 8" by (simp add: mask_eq_exp_minus_1)
lemma mask8h: "(0xFF00::32 word) = push_bit 8 (mask 8)" by (simp add: mask_eq_exp_minus_1)

lemma unat32_bound: "unat (x::32 word) < 4294967296"
  using unsigned_less[of x] by simp

lemma unat32_high_bound: "unat (x::32 word) div 65536 < 65536"
  using unat32_bound[of x] by arith

lemma unat32_high_mod: "unat (x::32 word) div 65536 mod 65536 = unat x div 65536"
  using unat32_high_bound[of x] by simp

lemma unat_lo: "unat ((x::32 word) AND 0xFFFF) = unat x mod 65536"
proof -
  have "(x AND 0xFFFF) = take_bit 16 x" by (simp add: take_bit_eq_mask mask_eq_exp_minus_1)
  then show ?thesis by (simp add: unat_mod take_bit_eq_mod)
qed

lemma unat_hi: "unat (drop_bit 16 (x::32 word)) = unat x div 65536"
  by (simp add: drop_bit_eq_div unat_div)

lemma unat_fold: "unat (drop_bit 16 x + ((x::32 word) AND 0xFFFF)) = fold16 (unat x)"
proof -
  have "unat x < 4294967296" using unsigned_less[of x] by simp
  then have "unat x div 65536 + unat x mod 65536 < 4294967296" by arith
  then show ?thesis by (simp add: unat_lo unat_hi unat_word_ariths fold16_def)
qed

lemma unat_sum4:
  "unat (drop_bit 16 w0 + ((w0::32 word) AND 0xFFFF) + drop_bit 16 w1 + ((w1::32 word) AND 0xFFFF))
     = unat w0 div 65536 + unat w0 mod 65536 + unat w1 div 65536 + unat w1 mod 65536"
proof -
  have "unat w0 < 4294967296" "unat w1 < 4294967296"
    using unsigned_less[of w0] unsigned_less[of w1] by simp_all
  then have "unat w0 div 65536 + unat w0 mod 65536 + unat w1 div 65536 + unat w1 mod 65536 < 4294967296"
    by arith
  then show ?thesis by (simp add: unat_lo unat_hi unat_word_ariths)
qed

lemma unat_igmp_checksum:
  "unat (igmp_checksum w0 w1) =
     fold16 (fold16 (unat w0 div 65536 + unat w0 mod 65536 + unat w1 div 65536 + unat w1 mod 65536))"
  unfolding igmp_checksum_def Let_def NX_SHIFT_BY_16_def NX_LOWER_16_MASK_def
  by (simp only: unat_fold unat_sum4)

lemma unat_hi16: "unat (ucast (drop_bit 16 (x::32 word)) :: 16 word) = unat x div 65536"
proof -
  have "unat x < 4294967296" using unsigned_less[of x] by simp
  then have "unat x div 65536 < 65536" by arith
  then show ?thesis by (simp add: unsigned_ucast_eq take_bit_eq_mod unat_hi)
qed

lemma unat_lo16: "unat (ucast (x::32 word) :: 16 word) = unat x mod 65536"
  by (simp add: unsigned_ucast_eq take_bit_eq_mod)

lemma unat16_up: "unat (ucast (x::16 word) :: 32 word) = unat x"
proof -
  have "unat x < 65536" using unsigned_less[of x] by simp
  then show ?thesis by (simp add: unsigned_ucast_eq take_bit_eq_mod)
qed

lemma unat16_not: "unat (NOT x) = 65535 - unat x" for x :: "16 word"
proof -
  have b: "unat x < 65536" "unat (NOT x) < 65536"
    using unsigned_less[of x] unsigned_less[of "NOT x"] by simp_all
  have "unat (x + NOT x) = 65535"
    by (simp add: unsigned_minus_1_eq_mask mask_eq_exp_minus_1)
  moreover have "unat (x + NOT x) = (unat x + unat (NOT x)) mod 65536"
    by (subst unat_word_ariths(1)) simp
  ultimately have m: "(unat x + unat (NOT x)) mod 65536 = 65535" by simp
  have "unat x + unat (NOT x) < 65536"
  proof (rule ccontr)
    assume "\<not> unat x + unat (NOT x) < 65536"
    then have c: "65536 \<le> unat x + unat (NOT x)" "unat x + unat (NOT x) < 2 * 65536" using b by simp_all
    then have "(unat x + unat (NOT x)) div 65536 = 1" by (intro div_nat_eqI) simp_all
    then have "(unat x + unat (NOT x)) mod 65536 = unat x + unat (NOT x) - 65536"
      by (simp add: modulo_nat_def)
    then show False using m b by simp
  qed
  then show ?thesis using m by simp
qed

lemma unat_ones_complement_add:
  "unat (ones_complement_add x y) = oc_add (unat x) (unat y)"
proof -
  have b: "unat x < 65536" "unat y < 65536"
    using unsigned_less[of x] unsigned_less[of y] by simp_all
  show ?thesis
  proof (cases "unat x + unat y < 65536")
    case True
    then show ?thesis by (simp add: ones_complement_add_def oc_add_def unat_word_ariths)
  next
    case False
    then have "65536 \<le> unat x + unat y + 1" "unat x + unat y + 1 < 2 * 65536"
      using b by simp_all
    then have "(unat x + unat y + 1) div 65536 = 1"
      by (intro div_nat_eqI) simp_all
    then have "(unat x + unat y + 1) mod 65536 = unat x + unat y + 1 - 65536"
      by (simp add: modulo_nat_def)
    then have "(unat x + unat y + 1) mod 65536 = unat x + unat y - 65535"
      by simp
    then show ?thesis using False
      by (simp add: ones_complement_add_def oc_add_def unat_word_ariths mod_simps)
  qed
qed

lemma unat_ones_complement_sum16_4:
  "unat (ones_complement_sum16 [a, b, c, d]) = oc_add (oc_add (oc_add (unat a) (unat b)) (unat c)) (unat d)"
proof -
  have "unat a < 65536" using unsigned_less[of a] by simp
  then show ?thesis
    by (simp add: ones_complement_sum16_def unat_ones_complement_add oc_add_0)
qed

lemma igmp_checksum_ones_complement:
  "igmp_checksum w0 w1 = ucast (ones_complement_sum16 (halves16 w0 @ halves16 w1))"
proof -
  have b: "unat w0 div 65536 < 65536" "unat w0 mod 65536 < 65536"
          "unat w1 div 65536 < 65536" "unat w1 mod 65536 < 65536"
    by (simp_all add: unat32_high_bound)
  have "unat (igmp_checksum w0 w1) = unat (ones_complement_sum16 (halves16 w0 @ halves16 w1))"
    by (simp add: unat_igmp_checksum halves16_def unat_ones_complement_sum16_4 unat_hi16 unat_lo16
          unat_hi unat32_high_mod fold16_twice_oc_add[OF b])
  also have "\<dots> = unat (ucast (ones_complement_sum16 (halves16 w0 @ halves16 w1)) :: 32 word)"
    by (simp only: unat16_up)
  finally show ?thesis by (rule word_unat_eq_iff[THEN iffD2])
qed

subsection \<open>Bits of the header words\<close>

lemma not_low_half:
  "NOT ck AND 0xFFFF = (ucast (NOT (ucast ck :: 16 word)) :: 32 word)" for ck :: "32 word"
  unfolding mask16 by (rule bit_word_eqI) (auto simp add: bit_simps)

lemma ucast_ucast_16: "(ucast (ucast x :: 32 word) :: 16 word) = x"
  by (rule bit_word_eqI) (auto simp add: bit_simps)

lemma low_bits_clear:
  fixes x :: "32 word"
  assumes "x AND 0xFFFF = 0" and "n < 16"
  shows "\<not> bit x n"
proof -
  have "bit (x AND mask 16) n = bit (0::32 word) n" using assms(1) by (simp add: mask16)
  then show ?thesis using assms(2) by (simp add: bit_simps)
qed

lemma low_half_or:
  "x AND 0xFFFF = 0 \<Longrightarrow> (ucast (x OR ucast y) :: 16 word) = y" for x :: "32 word" and y :: "16 word"
  by (rule bit_word_eqI) (auto simp add: bit_simps low_bits_clear)

lemma high_half_or:
  "(ucast (drop_bit 16 (x OR ucast y)) :: 16 word) = ucast (drop_bit 16 x)"
  for x :: "32 word" and y :: "16 word"
  by (rule bit_word_eqI) (auto simp add: bit_simps dest: bit_imp_le_length)

lemma type_byte_or:
  "(ucast (drop_bit 24 (x OR ucast y)) :: 8 word) = ucast (drop_bit 24 x)"
  for x :: "32 word" and y :: "16 word"
  by (rule bit_word_eqI) (auto simp add: bit_simps dest: bit_imp_le_length)

lemma igmp_header_word_0_low: "igmp_header_word_0 cfg v j AND 0xFFFF = 0"
  by (simp add: igmp_header_word_0_def NX_IGMP_VERSION_def NX_IGMP_HOST_RESPONSE_TYPE_def
        NX_IGMP_HOST_V2_JOIN_TYPE_def NX_IGMP_HOST_V2_LEAVE_TYPE_def)

lemma byte_swap_0: "(ucast (byte_swap x) :: 8 word) = ucast (drop_bit 24 x)"
  unfolding byte_swap_def mask8 mask8h by (rule bit_word_eqI) (auto simp add: bit_simps)

lemma byte_swap_1: "(ucast (drop_bit 8 (byte_swap x)) :: 8 word) = ucast (drop_bit 16 x)"
  unfolding byte_swap_def mask8 mask8h by (rule bit_word_eqI) (auto simp add: bit_simps)

lemma byte_swap_2: "(ucast (drop_bit 16 (byte_swap x)) :: 8 word) = ucast (drop_bit 8 x)"
  unfolding byte_swap_def mask8 mask8h by (rule bit_word_eqI) (auto simp add: bit_simps)

lemma byte_swap_3: "(ucast (drop_bit 24 (byte_swap x)) :: 8 word) = ucast x"
  unfolding byte_swap_def mask8 mask8h by (rule bit_word_eqI) (auto simp add: bit_simps)

lemma stored_bytes_network_order:
  "stored_bytes cfg (NX_CHANGE_ULONG_ENDIAN cfg x) =
     [ucast (drop_bit 24 x), ucast (drop_bit 16 x), ucast (drop_bit 8 x), ucast x]"
  by (simp add: stored_bytes_def NX_CHANGE_ULONG_ENDIAN_def
        byte_swap_0 byte_swap_1 byte_swap_2 byte_swap_3)

lemma word16_high:
  "push_bit 8 (ucast (ucast (drop_bit 24 x) :: 8 word)) OR ucast (ucast (drop_bit 16 x) :: 8 word)
     = (ucast (drop_bit 16 x) :: 16 word)" for x :: "32 word"
  by (rule bit_word_eqI) (auto simp add: bit_simps)

lemma word16_low:
  "push_bit 8 (ucast (ucast (drop_bit 8 x) :: 8 word)) OR ucast (ucast x :: 8 word)
     = (ucast x :: 16 word)" for x :: "32 word"
  by (rule bit_word_eqI) (auto simp add: bit_simps)

lemma words16_stored:
  "words16 (stored_bytes cfg (NX_CHANGE_ULONG_ENDIAN cfg x) @ stored_bytes cfg (NX_CHANGE_ULONG_ENDIAN cfg y))
     = halves16 x @ halves16 y"
  by (simp add: stored_bytes_network_order halves16_def word16_high word16_low)

lemma checksum_verifies:
  assumes low: "t AND 0xFFFF = 0"
  shows "ones_complement_sum16
           (halves16 (t OR ucast (NOT (ones_complement_sum16 (halves16 t @ halves16 g)))) @ halves16 g)
         = 0xFFFF"
proof -
  let ?s = "ones_complement_sum16 (halves16 t @ halves16 g)"
  have b: "unat t div 65536 < 65536" "unat g div 65536 < 65536" "unat g mod 65536 < 65536"
    by (simp_all add: unat32_high_bound)
  have t0: "unat t mod 65536 = 0" using low unat_lo[of t] by simp
  have sle: "unat ?s < 65536" using unsigned_less[of ?s] by simp
  have s: "unat ?s = fold16 (fold16 (unat t div 65536 + unat g div 65536 + unat g mod 65536))"
    using unat_igmp_checksum[of t g] t0
    by (simp add: igmp_checksum_ones_complement unat16_up)
  have "unat (NOT ?s) = 65535 - unat ?s" by (rule unat16_not)
  then have n: "unat (NOT ?s) = 65535 - fold16 (fold16 (unat t div 65536 + unat g div 65536 + unat g mod 65536))"
    using s by simp
  have h: "halves16 (t OR ucast (NOT ?s)) @ halves16 g
             = [ucast (drop_bit 16 t), NOT ?s, ucast (drop_bit 16 g), ucast g]"
    by (simp only: halves16_def high_half_or low_half_or[OF low] append.simps)
  have "unat (ones_complement_sum16 (halves16 (t OR ucast (NOT ?s)) @ halves16 g))
          = oc_add (oc_add (oc_add (unat t div 65536) (unat (NOT ?s))) (unat g div 65536))
              (unat g mod 65536)"
    by (simp only: h unat_ones_complement_sum16_4 unat_lo16 unat_hi unat32_high_mod)
  also have "\<dots> = fold16 (fold16 (unat t div 65536 + unat (NOT ?s) + unat g div 65536 + unat g mod 65536))"
    using b unat16_not[of ?s] by (intro fold16_twice_oc_add[symmetric]) simp_all
  also have "\<dots> = 65535"
    unfolding n by (rule fold16_twice_verify[OF b])
  finally have "unat (ones_complement_sum16 (halves16 (t OR ucast (NOT ?s)) @ halves16 g)) = 65535" .
  then have "unat (ones_complement_sum16 (halves16 (t OR ucast (NOT ?s)) @ halves16 g)) = unat (0xFFFF :: 16 word)"
    by simp
  then show ?thesis by (rule word_unat_eq_iff[THEN iffD2])
qed

subsection \<open>What a report that is sent looks like\<close>

lemma report_send_emitted:
  assumes run: "nx_igmp_interface_report_send cfg e w0 ip_ptr group_address interface_index is_joining
                  = Inr (st, w', tr)"
    and sent: "(NX_IP_PACKET_SEND a pk d tos ttl proto frag, ws) \<in> set tr"
  obtains ip1 p0 where
    "ips (igmp_after_allocate cfg e w0 ip_ptr) ip_ptr = Some ip1"
    "st = NX_SUCCESS" "a = ip_ptr"
    "d = (if is_joining = NX_TRUE then group_address else NX_ALL_ROUTERS_ADDRESS)"
    "ttl = NX_IGMP_TTL" "proto = NX_IP_IGMP"
    "ips ws ip_ptr = Some (if \<not> NX_DISABLE_IGMP_INFO cfg \<and> is_joining = NX_TRUE
                 then ip1\<lparr>nx_ip_igmp_reports_sent := nx_ip_igmp_reports_sent ip1 + 1\<rparr>
                 else ip1)"
    "packets ws pk = Some (p0\<lparr>nx_packet_length := NX_IGMP_HEADER_SIZE,
        nx_packet_prepend_ptr := nx_packet_prepend_ptr p0 - 8,
        nx_packet_ip_interface := address_nx_ip_interface cfg ip_ptr interface_index,
        nx_packet_data := (nx_packet_data p0)
          (nx_packet_prepend_ptr p0 - 8 := NX_CHANGE_ULONG_ENDIAN cfg
              (igmp_header_word_0 cfg (nx_ip_igmp_router_version ip1) is_joining
                 OR (NOT (igmp_checksum (igmp_header_word_0 cfg (nx_ip_igmp_router_version ip1) is_joining)
                        group_address) AND NX_LOWER_16_MASK)),
           nx_packet_prepend_ptr p0 - 8 + 4 := NX_CHANGE_ULONG_ENDIAN cfg group_address),
        nx_packet_next_hop_address := d\<rparr>)"
  using run sent
  unfolding nx_igmp_interface_report_send_def igmp_after_allocate_def Let_def load_def
  by (auto split: option.splits prod.splits if_splits sum.splits
        simp: NX_IGMP_HEADER_SIZE_def NX_SUCCESS_def)

lemma report_send_header:
  assumes run: "nx_igmp_interface_report_send cfg e w0 ip_ptr group_address interface_index is_joining
                  = Inr (st, w', tr)"
    and sent: "(NX_IP_PACKET_SEND a pk d tos ttl proto frag, ws) \<in> set tr"
  obtains ip p where
    "ips ws ip_ptr = Some ip" "packets ws pk = Some p"
    "nx_packet_data p (nx_packet_prepend_ptr p) = NX_CHANGE_ULONG_ENDIAN cfg
        (igmp_header_word_0 cfg (nx_ip_igmp_router_version ip) is_joining
           OR ucast (NOT (ones_complement_sum16
                (halves16 (igmp_header_word_0 cfg (nx_ip_igmp_router_version ip) is_joining)
                   @ halves16 group_address))))"
    "nx_packet_data p (nx_packet_prepend_ptr p + 4) = NX_CHANGE_ULONG_ENDIAN cfg group_address"
proof -
  from run sent obtain ip1 p0 where
    i: "ips ws ip_ptr = Some (if \<not> NX_DISABLE_IGMP_INFO cfg \<and> is_joining = NX_TRUE
                 then ip1\<lparr>nx_ip_igmp_reports_sent := nx_ip_igmp_reports_sent ip1 + 1\<rparr>
                 else ip1)" and
    p: "packets ws pk = Some (p0\<lparr>nx_packet_length := NX_IGMP_HEADER_SIZE,
        nx_packet_prepend_ptr := nx_packet_prepend_ptr p0 - 8,
        nx_packet_ip_interface := address_nx_ip_interface cfg ip_ptr interface_index,
        nx_packet_data := (nx_packet_data p0)
          (nx_packet_prepend_ptr p0 - 8 := NX_CHANGE_ULONG_ENDIAN cfg
              (igmp_header_word_0 cfg (nx_ip_igmp_router_version ip1) is_joining
                 OR (NOT (igmp_checksum (igmp_header_word_0 cfg (nx_ip_igmp_router_version ip1) is_joining)
                        group_address) AND NX_LOWER_16_MASK)),
           nx_packet_prepend_ptr p0 - 8 + 4 := NX_CHANGE_ULONG_ENDIAN cfg group_address),
        nx_packet_next_hop_address := d\<rparr>)"
    by (rule report_send_emitted)
  let ?ip = "if \<not> NX_DISABLE_IGMP_INFO cfg \<and> is_joining = NX_TRUE
                 then ip1\<lparr>nx_ip_igmp_reports_sent := nx_ip_igmp_reports_sent ip1 + 1\<rparr>
                 else ip1"
  have v: "nx_ip_igmp_router_version ?ip = nx_ip_igmp_router_version ip1" by simp
  have c: "NOT (igmp_checksum t group_address) AND NX_LOWER_16_MASK
            = ucast (NOT (ones_complement_sum16 (halves16 t @ halves16 group_address)))" for t
    by (simp only: NX_LOWER_16_MASK_def not_low_half igmp_checksum_ones_complement ucast_ucast_16)
  show thesis
    by (rule that[OF i p]) (simp_all only: v c, simp_all)
qed

lemma wire_header_sent:
  assumes "nx_packet_data p (nx_packet_prepend_ptr p) = NX_CHANGE_ULONG_ENDIAN cfg x"
    and "nx_packet_data p (nx_packet_prepend_ptr p + 4) = NX_CHANGE_ULONG_ENDIAN cfg y"
  shows "igmp_wire_header cfg p =
           [ucast (drop_bit 24 x), ucast (drop_bit 16 x), ucast (drop_bit 8 x), ucast x,
            ucast (drop_bit 24 y), ucast (drop_bit 16 y), ucast (drop_bit 8 y), ucast y]"
    and "words16 (igmp_wire_header cfg p) = halves16 x @ halves16 y"
proof -
  show "igmp_wire_header cfg p =
           [ucast (drop_bit 24 x), ucast (drop_bit 16 x), ucast (drop_bit 8 x), ucast x,
            ucast (drop_bit 24 y), ucast (drop_bit 16 y), ucast (drop_bit 8 y), ucast y]"
    using assms by (simp only: igmp_wire_header_def stored_bytes_network_order append.simps)
  show "words16 (igmp_wire_header cfg p) = halves16 x @ halves16 y"
    using assms by (simp only: igmp_wire_header_def words16_stored)
qed

text \<open>
  Claim C2.  Whenever the report function sends a packet, the first header word
  it stored is the type word with the one's complement of the 16-bit
  one's-complement sum of the four header halves in its low half (the stored
  words being in network order); the sum the code computes with its two folds
  is that one's-complement sum; and the one's-complement sum over the four
  16-bit words of the header as it lies in memory is \<open>0xFFFF\<close>.
\<close>

theorem igmp_report_checksum:
  assumes "nx_igmp_interface_report_send cfg e w ip_ptr group_address interface_index is_joining
             = Inr (st, w', tr)"
    and "(NX_IP_PACKET_SEND a pk d tos ttl proto frag, ws) \<in> set tr"
  shows "\<exists>ip p. ips ws ip_ptr = Some ip \<and> packets ws pk = Some p \<and>
           nx_packet_data p (nx_packet_prepend_ptr p) = NX_CHANGE_ULONG_ENDIAN cfg
             (igmp_header_word_0 cfg (nx_ip_igmp_router_version ip) is_joining
                OR ucast (NOT (ones_complement_sum16
                     (halves16 (igmp_header_word_0 cfg (nx_ip_igmp_router_version ip) is_joining)
                        @ halves16 group_address)))) \<and>
           nx_packet_data p (nx_packet_prepend_ptr p + 4) = NX_CHANGE_ULONG_ENDIAN cfg group_address \<and>
           igmp_checksum (igmp_header_word_0 cfg (nx_ip_igmp_router_version ip) is_joining) group_address
             = ucast (ones_complement_sum16
                     (halves16 (igmp_header_word_0 cfg (nx_ip_igmp_router_version ip) is_joining)
                        @ halves16 group_address)) \<and>
           ones_complement_sum16 (words16 (igmp_wire_header cfg p)) = 0xFFFF"
proof -
  from assms obtain ip p where
    i: "ips ws ip_ptr = Some ip" and p: "packets ws pk = Some p" and
    h0: "nx_packet_data p (nx_packet_prepend_ptr p) = NX_CHANGE_ULONG_ENDIAN cfg
        (igmp_header_word_0 cfg (nx_ip_igmp_router_version ip) is_joining
           OR ucast (NOT (ones_complement_sum16
                (halves16 (igmp_header_word_0 cfg (nx_ip_igmp_router_version ip) is_joining)
                   @ halves16 group_address))))" and
    h1: "nx_packet_data p (nx_packet_prepend_ptr p + 4) = NX_CHANGE_ULONG_ENDIAN cfg group_address"
    by (rule report_send_header)
  have "ones_complement_sum16 (words16 (igmp_wire_header cfg p)) = 0xFFFF"
    by (simp only: wire_header_sent(2)[OF h0 h1] checksum_verifies[OF igmp_header_word_0_low])
  with i p h0 h1 show ?thesis
    by (intro exI[of _ ip] exI[of _ p] conjI igmp_checksum_ones_complement)
qed

text \<open>
  Claim C7.  When the router version of the IP instance is version 1 at the
  time a report is sent, the first byte of the header in memory is \<open>0x12\<close>,
  whatever \<open>is_joining\<close> is.
\<close>

theorem igmp_v1_type_byte:
  assumes "nx_igmp_interface_report_send cfg e w ip_ptr group_address interface_index is_joining
             = Inr (st, w', tr)"
    and "(NX_IP_PACKET_SEND a pk d tos ttl proto frag, ws) \<in> set tr"
    and "ips ws ip_ptr = Some ip"
    and "nx_ip_igmp_router_version ip = NX_IGMP_HOST_VERSION_1"
  shows "\<exists>p. packets ws pk = Some p \<and> igmp_wire_header cfg p ! 0 = 0x12"
proof -
  from assms(1,2) obtain ip' p where
    i: "ips ws ip_ptr = Some ip'" and p: "packets ws pk = Some p" and
    h0: "nx_packet_data p (nx_packet_prepend_ptr p) = NX_CHANGE_ULONG_ENDIAN cfg
        (igmp_header_word_0 cfg (nx_ip_igmp_router_version ip') is_joining
           OR ucast (NOT (ones_complement_sum16
                (halves16 (igmp_header_word_0 cfg (nx_ip_igmp_router_version ip') is_joining)
                   @ halves16 group_address))))" and
    h1: "nx_packet_data p (nx_packet_prepend_ptr p + 4) = NX_CHANGE_ULONG_ENDIAN cfg group_address"
    by (rule report_send_header)
  have v: "nx_ip_igmp_router_version ip' = NX_IGMP_HOST_VERSION_1" using i assms(3,4) by simp
  have t: "(ucast (drop_bit 24 (igmp_header_word_0 cfg NX_IGMP_HOST_VERSION_1 is_joining)) :: 8 word) = 0x12"
    by (simp add: igmp_header_word_0_def NX_IGMP_VERSION_def NX_IGMP_HOST_RESPONSE_TYPE_def)
  have "igmp_wire_header cfg p ! 0 = 0x12"
    by (simp only: wire_header_sent(1)[OF h0 h1] nth_Cons_0 type_byte_or v t)
  with p show ?thesis by blast
qed

text \<open>
  Claim C9.  With IGMPv2 compiled in and a router version other than 1, a report
  that is sent has type byte \<open>0x16\<close> exactly when \<open>is_joining\<close> is not zero, while
  it goes to the group (destination and next hop) and the report function adds
  one to \<open>nx_ip_igmp_reports_sent\<close> exactly when \<open>is_joining\<close> equals \<^verbatim>\<open>NX_TRUE\<close>.
  Hence for \<open>is_joining\<close> other than 0 and 1 the packet has the join type, is
  sent and next-hopped to the all-routers address, and the counter keeps the
  value it had when the allocator returned.
\<close>

theorem igmp_is_joining_tests:
  assumes "nx_igmp_interface_report_send cfg e w ip_ptr group_address interface_index is_joining
             = Inr (st, w', tr)"
    and "(NX_IP_PACKET_SEND a pk d tos ttl proto frag, ws) \<in> set tr"
    and "\<not> NX_DISABLE_IGMPV2 cfg"
    and "ips ws ip_ptr = Some ip"
    and "nx_ip_igmp_router_version ip \<noteq> NX_IGMP_HOST_VERSION_1"
  shows "\<exists>p ip1. packets ws pk = Some p \<and>
           ips (igmp_after_allocate cfg e w ip_ptr) ip_ptr = Some ip1 \<and>
           igmp_wire_header cfg p ! 0 = (if is_joining \<noteq> 0 then 0x16 else 0x17) \<and>
           d = (if is_joining = NX_TRUE then group_address else NX_ALL_ROUTERS_ADDRESS) \<and>
           nx_packet_next_hop_address p = d \<and>
           nx_ip_igmp_reports_sent ip =
             (if \<not> NX_DISABLE_IGMP_INFO cfg \<and> is_joining = NX_TRUE
              then nx_ip_igmp_reports_sent ip1 + 1 else nx_ip_igmp_reports_sent ip1) \<and>
           (is_joining \<noteq> 0 \<and> is_joining \<noteq> 1 \<longrightarrow>
              igmp_wire_header cfg p ! 0 = 0x16 \<and> d = NX_ALL_ROUTERS_ADDRESS \<and>
              nx_packet_next_hop_address p = NX_ALL_ROUTERS_ADDRESS \<and>
              nx_ip_igmp_reports_sent ip = nx_ip_igmp_reports_sent ip1)"
proof -
  from assms(1,2) obtain ip1 p0 where
    a: "ips (igmp_after_allocate cfg e w ip_ptr) ip_ptr = Some ip1" and
    d: "d = (if is_joining = NX_TRUE then group_address else NX_ALL_ROUTERS_ADDRESS)" and
    i: "ips ws ip_ptr = Some (if \<not> NX_DISABLE_IGMP_INFO cfg \<and> is_joining = NX_TRUE
                 then ip1\<lparr>nx_ip_igmp_reports_sent := nx_ip_igmp_reports_sent ip1 + 1\<rparr>
                 else ip1)" and
    p: "packets ws pk = Some (p0\<lparr>nx_packet_length := NX_IGMP_HEADER_SIZE,
        nx_packet_prepend_ptr := nx_packet_prepend_ptr p0 - 8,
        nx_packet_ip_interface := address_nx_ip_interface cfg ip_ptr interface_index,
        nx_packet_data := (nx_packet_data p0)
          (nx_packet_prepend_ptr p0 - 8 := NX_CHANGE_ULONG_ENDIAN cfg
              (igmp_header_word_0 cfg (nx_ip_igmp_router_version ip1) is_joining
                 OR (NOT (igmp_checksum (igmp_header_word_0 cfg (nx_ip_igmp_router_version ip1) is_joining)
                        group_address) AND NX_LOWER_16_MASK)),
           nx_packet_prepend_ptr p0 - 8 + 4 := NX_CHANGE_ULONG_ENDIAN cfg group_address),
        nx_packet_next_hop_address := d\<rparr>)"
    by (rule report_send_emitted)
  from assms(1,2) obtain ip' p where
    i': "ips ws ip_ptr = Some ip'" and p': "packets ws pk = Some p" and
    h0: "nx_packet_data p (nx_packet_prepend_ptr p) = NX_CHANGE_ULONG_ENDIAN cfg
        (igmp_header_word_0 cfg (nx_ip_igmp_router_version ip') is_joining
           OR ucast (NOT (ones_complement_sum16
                (halves16 (igmp_header_word_0 cfg (nx_ip_igmp_router_version ip') is_joining)
                   @ halves16 group_address))))" and
    h1: "nx_packet_data p (nx_packet_prepend_ptr p + 4) = NX_CHANGE_ULONG_ENDIAN cfg group_address"
    by (rule report_send_header)
  have ip: "ip' = ip" using i' assms(4) by simp
  have t: "(ucast (drop_bit 24 (igmp_header_word_0 cfg (nx_ip_igmp_router_version ip) is_joining)) :: 8 word)
             = (if is_joining \<noteq> 0 then 0x16 else 0x17)"
    using assms(3,5)
    by (simp add: igmp_header_word_0_def NX_IGMP_HOST_V2_JOIN_TYPE_def NX_IGMP_HOST_V2_LEAVE_TYPE_def)
  have ty: "igmp_wire_header cfg p ! 0 = (if is_joining \<noteq> 0 then 0x16 else 0x17)"
    by (simp only: wire_header_sent(1)[OF h0 h1] nth_Cons_0 type_byte_or ip t)
  have nh: "nx_packet_next_hop_address p = d" using p p' by simp
  have cnt: "nx_ip_igmp_reports_sent ip =
             (if \<not> NX_DISABLE_IGMP_INFO cfg \<and> is_joining = NX_TRUE
              then nx_ip_igmp_reports_sent ip1 + 1 else nx_ip_igmp_reports_sent ip1)"
    using i assms(4) by auto
  show ?thesis
    using p' a ty d nh cnt
    by (intro exI[of _ p] exI[of _ ip1]) (simp add: NX_TRUE_def)
qed

subsection \<open>The reports of the concrete system\<close>

lemma ex_report_run:
  "\<exists>w' tr ws. nx_igmp_interface_report_send ex_cfg ex_env ex_world 1 g 0 j = Inr (NX_SUCCESS, w', tr)
     \<and> (NX_IP_PACKET_SEND 1 500 (if j = NX_TRUE then g else NX_ALL_ROUTERS_ADDRESS)
           NX_IP_NORMAL NX_IGMP_TTL NX_IP_IGMP NX_FRAGMENT_OKAY, ws) \<in> set tr
     \<and> ips ws 1 = Some (if j = NX_TRUE then ex_ip\<lparr>nx_ip_igmp_reports_sent := 1\<rparr> else ex_ip)"
  by (simp add: nx_igmp_interface_report_send_def load_def NX_NULL_def ex_world_def ex_env_def
        ex_cfg_def ex_ip_def Let_def)

lemma ex_report_run_v1:
  "\<exists>w' tr ws. nx_igmp_interface_report_send ex_cfg ex_env ex_world_v1 1 g 0 j = Inr (NX_SUCCESS, w', tr)
     \<and> (NX_IP_PACKET_SEND 1 500 (if j = NX_TRUE then g else NX_ALL_ROUTERS_ADDRESS)
           NX_IP_NORMAL NX_IGMP_TTL NX_IP_IGMP NX_FRAGMENT_OKAY, ws) \<in> set tr
     \<and> (\<exists>ip. ips ws 1 = Some ip \<and> nx_ip_igmp_router_version ip = 1)"
  by (simp add: nx_igmp_interface_report_send_def load_def NX_NULL_def ex_world_v1_def ex_world_def
        ex_env_def ex_cfg_def ex_ip_def Let_def)

theorem igmp_report_checksum_witness:
  "\<exists>w' tr ws p.
     nx_igmp_interface_report_send ex_cfg ex_env ex_world 1 0xE000002A 0 1 = Inr (NX_SUCCESS, w', tr)
     \<and> (NX_IP_PACKET_SEND 1 500 0xE000002A NX_IP_NORMAL NX_IGMP_TTL NX_IP_IGMP NX_FRAGMENT_OKAY, ws)
          \<in> set tr
     \<and> packets ws 500 = Some p
     \<and> ones_complement_sum16 (words16 (igmp_wire_header ex_cfg p)) = 0xFFFF"
proof -
  from ex_report_run[of "0xE000002A" 1] obtain w' tr ws where
    r: "nx_igmp_interface_report_send ex_cfg ex_env ex_world 1 0xE000002A 0 1 = Inr (NX_SUCCESS, w', tr)"
    and s: "(NX_IP_PACKET_SEND 1 500 0xE000002A NX_IP_NORMAL NX_IGMP_TTL NX_IP_IGMP NX_FRAGMENT_OKAY, ws)
              \<in> set tr"
    by (auto simp: NX_TRUE_def)
  from igmp_report_checksum[OF r s] r s show ?thesis by blast
qed

theorem igmp_v1_type_byte_witness:
  "\<exists>w' tr ws p.
     nx_igmp_interface_report_send ex_cfg ex_env ex_world_v1 1 0xE000002A 0 0 = Inr (NX_SUCCESS, w', tr)
     \<and> (NX_IP_PACKET_SEND 1 500 NX_ALL_ROUTERS_ADDRESS NX_IP_NORMAL NX_IGMP_TTL NX_IP_IGMP
           NX_FRAGMENT_OKAY, ws) \<in> set tr
     \<and> packets ws 500 = Some p
     \<and> igmp_wire_header ex_cfg p ! 0 = 0x12"
proof -
  from ex_report_run_v1[of "0xE000002A" 0] obtain w' tr ws ip where
    r: "nx_igmp_interface_report_send ex_cfg ex_env ex_world_v1 1 0xE000002A 0 0 = Inr (NX_SUCCESS, w', tr)"
    and s: "(NX_IP_PACKET_SEND 1 500 NX_ALL_ROUTERS_ADDRESS NX_IP_NORMAL NX_IGMP_TTL NX_IP_IGMP
               NX_FRAGMENT_OKAY, ws) \<in> set tr"
    and i: "ips ws 1 = Some ip" and v: "nx_ip_igmp_router_version ip = NX_IGMP_HOST_VERSION_1"
    by (auto simp: NX_TRUE_def NX_IGMP_HOST_VERSION_1_def)
  from igmp_v1_type_byte[OF r s i v] r s show ?thesis by blast
qed

theorem igmp_is_joining_tests_witness:
  "\<exists>w' tr ws p.
     nx_igmp_interface_report_send ex_cfg ex_env ex_world 1 0xE000002A 0 2 = Inr (NX_SUCCESS, w', tr)
     \<and> (NX_IP_PACKET_SEND 1 500 NX_ALL_ROUTERS_ADDRESS NX_IP_NORMAL NX_IGMP_TTL NX_IP_IGMP
           NX_FRAGMENT_OKAY, ws) \<in> set tr
     \<and> packets ws 500 = Some p
     \<and> igmp_wire_header ex_cfg p ! 0 = 0x16
     \<and> nx_packet_next_hop_address p = NX_ALL_ROUTERS_ADDRESS
     \<and> ips ws 1 = Some ex_ip
     \<and> nx_ip_igmp_reports_sent ex_ip = 0"
proof -
  from ex_report_run[of "0xE000002A" 2] obtain w' tr ws where
    r: "nx_igmp_interface_report_send ex_cfg ex_env ex_world 1 0xE000002A 0 2 = Inr (NX_SUCCESS, w', tr)"
    and s: "(NX_IP_PACKET_SEND 1 500 NX_ALL_ROUTERS_ADDRESS NX_IP_NORMAL NX_IGMP_TTL NX_IP_IGMP
               NX_FRAGMENT_OKAY, ws) \<in> set tr"
    and i: "ips ws 1 = Some ex_ip"
    by (auto simp: NX_TRUE_def)
  have c: "\<not> NX_DISABLE_IGMPV2 ex_cfg" by (simp add: ex_cfg_def)
  have v: "nx_ip_igmp_router_version ex_ip \<noteq> NX_IGMP_HOST_VERSION_1"
    by (simp add: ex_ip_def NX_IGMP_HOST_VERSION_1_def)
  from igmp_is_joining_tests[OF r s c i v] r s i show ?thesis
    by (auto simp: ex_ip_def)
qed

section \<open>Properties of the TCP client connect\<close>

lemma tcp_connect_send_syn_cases:
  assumes "tcp_connect_send_syn cfg e w2 tr1 socket_ptr ip_ptr seq wait_option = Inr (st, w', tr)"
  obtains
    (established) s4 where
      "load (tcp_sockets (nx_tcp_packet_send_syn e w2 socket_ptr seq)) socket_ptr = Inr s4"
      "nx_tcp_socket_state s4 = NX_TCP_ESTABLISHED" "st = NX_SUCCESS"
      "w' = nx_tcp_packet_send_syn e w2 socket_ptr seq"
      "tr = tr1 @ [(NX_TCP_PACKET_SEND_SYN socket_ptr seq, w2), (TX_MUTEX_PUT ip_ptr, w')]"
  | (in_progress) s4 where
      "load (tcp_sockets (nx_tcp_packet_send_syn e w2 socket_ptr seq)) socket_ptr = Inr s4"
      "nx_tcp_socket_state s4 \<noteq> NX_TCP_ESTABLISHED"
      "wait_option = 0 \<or> tx_thread_current_ptr (nx_tcp_packet_send_syn e w2 socket_ptr seq)
                            = address_nx_ip_thread cfg ip_ptr"
      "st = NX_IN_PROGRESS"
      "w' = nx_tcp_packet_send_syn e w2 socket_ptr seq"
      "tr = tr1 @ [(NX_TCP_PACKET_SEND_SYN socket_ptr seq, w2), (TX_MUTEX_PUT ip_ptr, w')]"
  | (woken) s4 w3 w4 th where
      "w3 = nx_tcp_packet_send_syn e w2 socket_ptr seq"
      "load (tcp_sockets w3) socket_ptr = Inr s4"
      "nx_tcp_socket_state s4 \<noteq> NX_TCP_ESTABLISHED"
      "wait_option \<noteq> 0" "tx_thread_current_ptr w3 \<noteq> address_nx_ip_thread cfg ip_ptr"
      "w4 = nx_tcp_socket_thread_suspend e w3 socket_ptr wait_option"
      "load (threads w4) (tx_thread_current_ptr w4) = Inr th"
      "st = tx_thread_suspend_status th"
      "tr = tr1 @ [(NX_TCP_PACKET_SEND_SYN socket_ptr seq, w2),
                   (NX_TCP_SOCKET_THREAD_SUSPEND socket_ptr NX_TCP_CONNECT_CLEANUP ip_ptr wait_option, w3)]"
      "st = 0 \<longrightarrow> w' = w4"
      "st \<noteq> 0 \<longrightarrow> (\<exists>s5. load (tcp_sockets w4) socket_ptr = Inr s5 \<and>
          w' = w4\<lparr>tcp_sockets := (tcp_sockets w4)
                      (socket_ptr \<mapsto> s5\<lparr>nx_tcp_socket_state := NX_TCP_CLOSED\<rparr>)\<rparr>)"
proof -
  let ?w3 = "nx_tcp_packet_send_syn e w2 socket_ptr seq"
  let ?w4 = "nx_tcp_socket_thread_suspend e ?w3 socket_ptr wait_option"
  from assms obtain s4 where s4: "load (tcp_sockets ?w3) socket_ptr = Inr s4"
    unfolding tcp_connect_send_syn_def Let_def by (simp split: sum.splits)
  show thesis
  proof (cases "nx_tcp_socket_state s4 = NX_TCP_ESTABLISHED")
    case True
    with assms s4 show thesis
      unfolding tcp_connect_send_syn_def Let_def by (intro established[of s4]) auto
  next
    case ne: False
    show thesis
    proof (cases "wait_option \<noteq> 0 \<and> tx_thread_current_ptr ?w3 \<noteq> address_nx_ip_thread cfg ip_ptr")
      case False
      with assms s4 ne show thesis
        unfolding tcp_connect_send_syn_def Let_def by (intro in_progress[of s4]) auto
    next
      case True
      with assms s4 ne obtain th where th: "load (threads ?w4) (tx_thread_current_ptr ?w4) = Inr th"
        unfolding tcp_connect_send_syn_def Let_def by (simp split: sum.splits)
      show thesis
      proof (cases "tx_thread_suspend_status th = 0")
        case z: True
        with assms s4 ne True th show thesis
          unfolding tcp_connect_send_syn_def Let_def
          by (intro woken[of ?w3 s4 ?w4 th]) auto
      next
        case nz: False
        with assms s4 ne True th obtain s5 where "load (tcp_sockets ?w4) socket_ptr = Inr s5"
          unfolding tcp_connect_send_syn_def Let_def by (simp split: sum.splits)
        with assms s4 ne True th nz show thesis
          unfolding tcp_connect_send_syn_def Let_def
          by (intro woken[of ?w3 s4 ?w4 th]) auto
      qed
    qed
  qed
qed

lemma tcp_connect_cases:
  assumes run: "nx_tcp_client_socket_connect cfg e w0 socket_ptr server_ip server_port wait_option
                  = Inr (st, w', tr)"
  obtains
    (not_bound) s0 where
      "load (tcp_sockets w0) socket_ptr = Inr s0"
      "nx_tcp_socket_bound_next s0 = NX_NULL"
      "st = NX_NOT_BOUND" "w' = w0"
      "tr = [(TX_MUTEX_GET (nx_tcp_socket_ip_ptr s0), w0), (TX_MUTEX_PUT (nx_tcp_socket_ip_ptr s0), w0)]"
  | (not_closed) s0 where
      "load (tcp_sockets w0) socket_ptr = Inr s0"
      "nx_tcp_socket_bound_next s0 \<noteq> NX_NULL"
      "nx_tcp_socket_state s0 \<noteq> NX_TCP_CLOSED"
      "st = NX_NOT_CLOSED" "w' = w0"
      "tr = [(TX_MUTEX_GET (nx_tcp_socket_ip_ptr s0), w0), (TX_MUTEX_PUT (nx_tcp_socket_ip_ptr s0), w0)]"
  | (no_route) s0 rs itf_ptr hop where
      "load (tcp_sockets w0) socket_ptr = Inr s0"
      "nx_tcp_socket_bound_next s0 \<noteq> NX_NULL"
      "nx_tcp_socket_state s0 = NX_TCP_CLOSED"
      "nx_ip_route_find e w0 (nx_tcp_socket_ip_ptr s0) server_ip NX_NULL
          (nx_tcp_socket_next_hop_address s0) = (rs, itf_ptr, hop)"
      "rs \<noteq> NX_SUCCESS" "st = NX_IP_ADDRESS_ERROR"
      "w' = w0\<lparr>tcp_sockets := (tcp_sockets w0)
                  (socket_ptr \<mapsto> s0\<lparr>nx_tcp_socket_next_hop_address := hop\<rparr>)\<rparr>"
      "tr = [(TX_MUTEX_GET (nx_tcp_socket_ip_ptr s0), w0),
             (NX_IP_ROUTE_FIND (nx_tcp_socket_ip_ptr s0) server_ip, w0),
             (TX_MUTEX_PUT (nx_tcp_socket_ip_ptr s0), w')]"
  | (small_mtu) s0 ip0 itf_ptr hop itf where
      "load (tcp_sockets w0) socket_ptr = Inr s0"
      "load (ips w0) (nx_tcp_socket_ip_ptr s0) = Inr ip0"
      "nx_tcp_socket_bound_next s0 \<noteq> NX_NULL"
      "nx_tcp_socket_state s0 = NX_TCP_CLOSED"
      "nx_ip_route_find e w0 (nx_tcp_socket_ip_ptr s0) server_ip NX_NULL
          (nx_tcp_socket_next_hop_address s0) = (NX_SUCCESS, itf_ptr, hop)"
      "load (interfaces w0) itf_ptr = Inr itf"
      "unat (nx_interface_ip_mtu_size itf) < sizeof_NX_IP_HEADER cfg + sizeof_NX_TCP_HEADER cfg"
      "st = NX_INVALID_INTERFACE"
      "ips w' (nx_tcp_socket_ip_ptr s0) = Some ip0"
      "tcp_sockets w' socket_ptr =
         Some (s0\<lparr>nx_tcp_socket_state := NX_TCP_CLOSED, nx_tcp_socket_connect_ip := 0,
                  nx_tcp_socket_connect_port := 0, nx_tcp_socket_next_hop_address := 0\<rparr>)"
      "tr = [(TX_MUTEX_GET (nx_tcp_socket_ip_ptr s0), w0),
             (NX_IP_ROUTE_FIND (nx_tcp_socket_ip_ptr s0) server_ip, w0),
             (TX_MUTEX_PUT (nx_tcp_socket_ip_ptr s0), w')]"
  | (syn) s0 ip0 itf_ptr hop itf w2 s3 where
      "load (tcp_sockets w0) socket_ptr = Inr s0"
      "load (ips w0) (nx_tcp_socket_ip_ptr s0) = Inr ip0"
      "nx_tcp_socket_bound_next s0 \<noteq> NX_NULL"
      "nx_tcp_socket_state s0 = NX_TCP_CLOSED"
      "nx_ip_route_find e w0 (nx_tcp_socket_ip_ptr s0) server_ip NX_NULL
          (nx_tcp_socket_next_hop_address s0) = (NX_SUCCESS, itf_ptr, hop)"
      "load (interfaces w0) itf_ptr = Inr itf"
      "\<not> unat (nx_interface_ip_mtu_size itf) < sizeof_NX_IP_HEADER cfg + sizeof_NX_TCP_HEADER cfg"
      "s3 = tcp_connect_prepare e itf_ptr
              (s0\<lparr>nx_tcp_socket_next_hop_address := hop, nx_tcp_socket_state := NX_TCP_SYN_SENT,
                  nx_tcp_socket_connect_ip := server_ip, nx_tcp_socket_connect_port := server_port\<rparr>)"
      "tcp_sockets w2 socket_ptr = Some s3"
      "tcp_connect_send_syn cfg e w2
         [(TX_MUTEX_GET (nx_tcp_socket_ip_ptr s0), w0),
          (NX_IP_ROUTE_FIND (nx_tcp_socket_ip_ptr s0) server_ip, w0)]
         socket_ptr (nx_tcp_socket_ip_ptr s0) (nx_tcp_socket_tx_sequence s3 - 1) wait_option
         = Inr (st, w', tr)"
proof -
  from run obtain s0 where s0: "load (tcp_sockets w0) socket_ptr = Inr s0"
    unfolding nx_tcp_client_socket_connect_def by (simp split: sum.splits)
  let ?ip = "nx_tcp_socket_ip_ptr s0"
  from run s0 obtain ip0 where ip0: "load (ips w0) ?ip = Inr ip0"
    unfolding nx_tcp_client_socket_connect_def Let_def by (simp split: sum.splits)
  show thesis
  proof (cases "nx_tcp_socket_bound_next s0 = NX_NULL")
    case True
    with run s0 ip0 show thesis
      unfolding nx_tcp_client_socket_connect_def Let_def by (intro not_bound[of s0]) auto
  next
    case bound: False
    show thesis
    proof (cases "nx_tcp_socket_state s0 = NX_TCP_CLOSED")
      case False
      with run s0 ip0 bound show thesis
        unfolding nx_tcp_client_socket_connect_def Let_def by (intro not_closed[of s0]) auto
    next
      case closed: True
      obtain rs itf_ptr hop where
        rf: "nx_ip_route_find e w0 ?ip server_ip NX_NULL (nx_tcp_socket_next_hop_address s0)
               = (rs, itf_ptr, hop)"
        by (cases "nx_ip_route_find e w0 ?ip server_ip NX_NULL (nx_tcp_socket_next_hop_address s0)")
      show thesis
      proof (cases "rs = NX_SUCCESS")
        case False
        with run s0 ip0 bound closed rf show thesis
          unfolding nx_tcp_client_socket_connect_def Let_def
          by (intro no_route[of s0 rs itf_ptr hop]) auto
      next
        case ok: True
        from run s0 ip0 bound closed rf ok obtain itf where
          itf: "load (interfaces w0) itf_ptr = Inr itf"
          unfolding nx_tcp_client_socket_connect_def Let_def by (simp split: sum.splits)
        show thesis
        proof (cases "unat (nx_interface_ip_mtu_size itf)
                        < sizeof_NX_IP_HEADER cfg + sizeof_NX_TCP_HEADER cfg")
          case True
          with run s0 ip0 bound closed rf ok itf show thesis
            unfolding nx_tcp_client_socket_connect_def Let_def
            by (intro small_mtu[of s0 ip0 itf_ptr hop itf]) auto
        next
          case False
          with run s0 ip0 bound closed rf ok itf show thesis
            unfolding nx_tcp_client_socket_connect_def Let_def
            by (intro syn[of s0 ip0 itf_ptr hop itf _ _]) auto
        qed
      qed
    qed
  qed
qed

text \<open>
  Claim C3.  A connect on a bound, closed socket whose route leads to an
  interface with an MTU below the two header sizes returns
  \<^verbatim>\<open>NX_INVALID_INTERFACE\<close>; afterwards the two connection counters of the IP
  instance have the values they had before the call, the socket is closed, and
  its connect address, connect port and next hop are zero.
\<close>

theorem tcp_connect_small_mtu:
  assumes s: "load (tcp_sockets w) socket_ptr = Inr s"
    and ip: "load (ips w) (nx_tcp_socket_ip_ptr s) = Inr ip"
    and bound: "nx_tcp_socket_bound_next s \<noteq> NX_NULL"
    and closed: "nx_tcp_socket_state s = NX_TCP_CLOSED"
    and route: "nx_ip_route_find e w (nx_tcp_socket_ip_ptr s) server_ip NX_NULL
                  (nx_tcp_socket_next_hop_address s) = (NX_SUCCESS, itf_ptr, hop)"
    and itf: "load (interfaces w) itf_ptr = Inr itf"
    and small: "unat (nx_interface_ip_mtu_size itf) < sizeof_NX_IP_HEADER cfg + sizeof_NX_TCP_HEADER cfg"
  shows "\<exists>w' tr ip' s'.
           nx_tcp_client_socket_connect cfg e w socket_ptr server_ip server_port wait_option
             = Inr (NX_INVALID_INTERFACE, w', tr) \<and>
           load (ips w') (nx_tcp_socket_ip_ptr s) = Inr ip' \<and>
           nx_ip_tcp_active_connections ip' = nx_ip_tcp_active_connections ip \<and>
           nx_ip_tcp_connections ip' = nx_ip_tcp_connections ip \<and>
           load (tcp_sockets w') socket_ptr = Inr s' \<and>
           nx_tcp_socket_state s' = NX_TCP_CLOSED \<and>
           nx_tcp_socket_connect_ip s' = 0 \<and>
           nx_tcp_socket_connect_port s' = 0 \<and>
           nx_tcp_socket_next_hop_address s' = 0"
proof -
  have nz: "socket_ptr \<noteq> NX_NULL" "nx_tcp_socket_ip_ptr s \<noteq> NX_NULL"
    using s ip by (auto simp: load_def split: if_splits)
  show ?thesis
    using assms nz unfolding nx_tcp_client_socket_connect_def Let_def
    by (simp add: load_def)
qed

lemma tcp_connect_prepare_sequence:
  "nx_tcp_socket_tx_sequence (tcp_connect_prepare e itf_ptr s)
     = tcp_initial_sequence e (nx_tcp_socket_tx_sequence s) + 1"
  by (simp add: tcp_connect_prepare_def Let_def)

lemma concat16:
  fixes a b :: "32 word"
  assumes "take_bit 16 a = a" and "take_bit 16 b = b"
  shows "drop_bit 16 (push_bit 16 a OR b) = a" and "(push_bit 16 a OR b) AND 0xFFFF = b"
proof -
  have m: "(0xFFFF::32 word) = mask 16" by (simp add: mask_eq_exp_minus_1)
  have ba: "n < 16" if "bit a n" for n
  proof -
    have "bit (take_bit 16 a) n" using that assms(1) by simp
    then show ?thesis by (simp add: bit_take_bit_iff)
  qed
  have bb: "n < 16" if "bit b n" for n
  proof -
    have "bit (take_bit 16 b) n" using that assms(2) by simp
    then show ?thesis by (simp add: bit_take_bit_iff)
  qed
  show "drop_bit 16 (push_bit 16 a OR b) = a"
    by (rule bit_word_eqI) (auto simp add: bit_simps dest: ba bb)
  show "(push_bit 16 a OR b) AND 0xFFFF = b"
    unfolding m by (rule bit_word_eqI) (auto simp add: bit_simps dest: ba bb)
qed

lemma draw16:
  assumes "0 \<le> r" and "r < 65536"
  shows "take_bit 16 (word_of_int r :: 32 word) = word_of_int r"
proof -
  have "take_bit 16 r = r" using assms by (simp add: take_bit_int_eq_self)
  then show ?thesis by (metis take_bit_of_int)
qed

text \<open>
  Claim C5.  Whenever connect sends a SYN, the sequence number in the SYN is the
  seeded value: \<open>(r0 << 16) | r1\<close> for the first two draws of \<^verbatim>\<open>NX_RAND\<close> when the
  socket's \<open>tx_sequence\<close> was zero, and the old \<open>tx_sequence\<close> plus \<open>0x10000\<close> plus the
  first draw otherwise; the socket's \<open>tx_sequence\<close> at that moment is that value
  plus one.  When the two draws are 16-bit values, the first is the upper and
  the second the lower half of the seeded value.  All of it is 32-bit
  arithmetic.
\<close>

theorem tcp_connect_sequence_number:
  assumes run: "nx_tcp_client_socket_connect cfg e w socket_ptr server_ip server_port wait_option
                  = Inr (st, w', tr)"
    and s0: "load (tcp_sockets w) socket_ptr = Inr s0"
    and syn: "(NX_TCP_PACKET_SEND_SYN sp seq, ws) \<in> set tr"
  shows "sp = socket_ptr \<and>
         (\<exists>s. tcp_sockets ws socket_ptr = Some s \<and> nx_tcp_socket_tx_sequence s = seq + 1 \<and>
              seq = nx_tcp_socket_tx_sequence s - 1) \<and>
         seq = (if nx_tcp_socket_tx_sequence s0 = 0
                then push_bit 16 (word_of_int (nx_rand e 0)) OR word_of_int (nx_rand e 1)
                else nx_tcp_socket_tx_sequence s0 + 0x10000 + word_of_int (nx_rand e 0)) \<and>
         (nx_tcp_socket_tx_sequence s0 = 0 \<and> 0 \<le> nx_rand e 0 \<and> nx_rand e 0 < 65536 \<and>
            0 \<le> nx_rand e 1 \<and> nx_rand e 1 < 65536 \<longrightarrow>
            drop_bit 16 seq = word_of_int (nx_rand e 0) \<and> seq AND 0xFFFF = word_of_int (nx_rand e 1))"
proof -
  from run show ?thesis
  proof (cases rule: tcp_connect_cases)
    case (syn s0' ip0 itf_ptr hop itf w2 s3)
    have e: "s0' = s0" using syn(1) s0 by simp
    from syn(10) have tr: "sp = socket_ptr \<and> seq = nx_tcp_socket_tx_sequence s3 - 1 \<and> ws = w2"
      using assms(3) by (cases rule: tcp_connect_send_syn_cases) auto
    have sq: "nx_tcp_socket_tx_sequence s3 = tcp_initial_sequence e (nx_tcp_socket_tx_sequence s0) + 1"
      unfolding syn(8) e by (simp add: tcp_connect_prepare_sequence)
    have seq: "seq = tcp_initial_sequence e (nx_tcp_socket_tx_sequence s0)" using tr sq by simp
    have c: "drop_bit 16 seq = word_of_int (nx_rand e 0) \<and> seq AND 0xFFFF = word_of_int (nx_rand e 1)"
      if "nx_tcp_socket_tx_sequence s0 = 0" "0 \<le> nx_rand e 0" "nx_rand e 0 < 65536"
         "0 \<le> nx_rand e 1" "nx_rand e 1 < 65536"
      using that concat16[OF draw16 draw16, of "nx_rand e 0" "nx_rand e 1"]
      by (simp add: seq tcp_initial_sequence_def NX_SHIFT_BY_16_def)
    show ?thesis
      using tr syn(9) sq seq c by (auto simp: tcp_initial_sequence_def NX_SHIFT_BY_16_def)
  qed (use syn in auto)
qed

text \<open>
  Claim C8.  When connect has sent its SYN, the socket is then not in the
  established state, and the running thread is the thread of the IP instance,
  connect returns \<^verbatim>\<open>NX_IN_PROGRESS\<close> with the memory as the SYN left it, and no
  call that suspends the thread was made, whatever the wait option is.
\<close>

theorem tcp_connect_ip_thread_in_progress:
  assumes run: "nx_tcp_client_socket_connect cfg e w socket_ptr server_ip server_port wait_option
                  = Inr (st, w', tr)"
    and s0: "load (tcp_sockets w) socket_ptr = Inr s0"
    and syn: "(NX_TCP_PACKET_SEND_SYN sp seq, ws) \<in> set tr"
    and s4: "load (tcp_sockets (nx_tcp_packet_send_syn e ws sp seq)) socket_ptr = Inr s4"
    and ne: "nx_tcp_socket_state s4 \<noteq> NX_TCP_ESTABLISHED"
    and ipt: "tx_thread_current_ptr (nx_tcp_packet_send_syn e ws sp seq)
                = address_nx_ip_thread cfg (nx_tcp_socket_ip_ptr s0)"
  shows "st = NX_IN_PROGRESS \<and> w' = nx_tcp_packet_send_syn e ws sp seq \<and>
         (\<forall>a r b t ws'. (NX_TCP_SOCKET_THREAD_SUSPEND a r b t, ws') \<notin> set tr)"
proof -
  from run show ?thesis
  proof (cases rule: tcp_connect_cases)
    case (syn s0' ip0 itf_ptr hop itf w2 s3)
    have e: "s0' = s0" using syn(1) s0 by simp
    from syn(10) show ?thesis
    proof (cases rule: tcp_connect_send_syn_cases)
      case (established s4')
      then have "sp = socket_ptr \<and> seq = nx_tcp_socket_tx_sequence s3 - 1 \<and> ws = w2"
        using assms(3) by auto
      with established s4 ne show ?thesis by simp
    next
      case (in_progress s4')
      then have "sp = socket_ptr \<and> seq = nx_tcp_socket_tx_sequence s3 - 1 \<and> ws = w2"
        using assms(3) by auto
      with in_progress show ?thesis by auto
    next
      case (woken s4' w3 w4 th)
      then have "sp = socket_ptr \<and> seq = nx_tcp_socket_tx_sequence s3 - 1 \<and> ws = w2"
        using assms(3) by auto
      with woken ipt e show ?thesis by simp
    qed
  qed (use syn in auto)
qed

text \<open>
  Claim C1, as the code has it.  A connect that returns without having
  suspended returns one of six codes.  With \<^verbatim>\<open>NX_NOT_BOUND\<close> or \<^verbatim>\<open>NX_NOT_CLOSED\<close>
  the memory is as before the call (so a socket that was not closed is still
  not closed); with \<^verbatim>\<open>NX_IP_ADDRESS_ERROR\<close> the socket is closed and keeps its
  connect address and port; with \<^verbatim>\<open>NX_INVALID_INTERFACE\<close> the socket is closed and
  connect address, connect port and next hop are zero.  A connect that wakes
  from its suspension with a non-zero status leaves the socket closed.
\<close>

theorem tcp_connect_error_states:
  assumes run: "nx_tcp_client_socket_connect cfg e w socket_ptr server_ip server_port wait_option
                  = Inr (st, w', tr)"
    and s0: "load (tcp_sockets w) socket_ptr = Inr s0"
  shows "((\<forall>a r b t ws. (NX_TCP_SOCKET_THREAD_SUSPEND a r b t, ws) \<notin> set tr) \<longrightarrow>
            st \<in> {NX_SUCCESS, NX_IN_PROGRESS, NX_NOT_BOUND, NX_NOT_CLOSED, NX_IP_ADDRESS_ERROR,
                   NX_INVALID_INTERFACE} \<and>
            (st = NX_NOT_BOUND \<longrightarrow> w' = w) \<and>
            (st = NX_NOT_CLOSED \<longrightarrow> w' = w \<and> nx_tcp_socket_state s0 \<noteq> NX_TCP_CLOSED) \<and>
            (st = NX_IP_ADDRESS_ERROR \<longrightarrow>
               (\<exists>s'. load (tcp_sockets w') socket_ptr = Inr s' \<and>
                     nx_tcp_socket_state s' = NX_TCP_CLOSED \<and>
                     nx_tcp_socket_connect_ip s' = nx_tcp_socket_connect_ip s0 \<and>
                     nx_tcp_socket_connect_port s' = nx_tcp_socket_connect_port s0)) \<and>
            (st = NX_INVALID_INTERFACE \<longrightarrow>
               (\<exists>s'. load (tcp_sockets w') socket_ptr = Inr s' \<and>
                     nx_tcp_socket_state s' = NX_TCP_CLOSED \<and>
                     nx_tcp_socket_connect_ip s' = 0 \<and>
                     nx_tcp_socket_connect_port s' = 0 \<and>
                     nx_tcp_socket_next_hop_address s' = 0))) \<and>
         ((\<exists>a r b t ws. (NX_TCP_SOCKET_THREAD_SUSPEND a r b t, ws) \<in> set tr) \<and> st \<noteq> NX_SUCCESS \<longrightarrow>
            (\<exists>s'. load (tcp_sockets w') socket_ptr = Inr s' \<and>
                  nx_tcp_socket_state s' = NX_TCP_CLOSED))"
proof -
  have nz: "socket_ptr \<noteq> NX_NULL" using s0 by (auto simp: load_def split: if_splits)
  note codes = NX_SUCCESS_def NX_IN_PROGRESS_def NX_NOT_BOUND_def NX_NOT_CLOSED_def
    NX_IP_ADDRESS_ERROR_def NX_INVALID_INTERFACE_def
  from run show ?thesis
  proof (cases rule: tcp_connect_cases)
    case (not_bound s0')
    then show ?thesis by (simp add: codes)
  next
    case (not_closed s0')
    then show ?thesis using s0 by (simp add: codes)
  next
    case (no_route s0' rs itf_ptr hop)
    then show ?thesis using s0 nz by (simp add: codes load_def)
  next
    case (small_mtu s0' ip0 itf_ptr hop itf)
    then show ?thesis using s0 nz by (simp add: codes load_def)
  next
    case (syn s0' ip0 itf_ptr hop itf w2 s3)
    from syn(10) show ?thesis
    proof (cases rule: tcp_connect_send_syn_cases)
      case (established s4)
      then show ?thesis by (simp add: codes)
    next
      case (in_progress s4)
      then show ?thesis by (simp add: codes)
    next
      case (woken s4 w3 w4 th)
      have a: "\<exists>a r b t ws. (NX_TCP_SOCKET_THREAD_SUSPEND a r b t, ws) \<in> set tr"
        unfolding woken(9) by auto
      have b: "\<exists>s'. load (tcp_sockets w') socket_ptr = Inr s' \<and>
                  nx_tcp_socket_state s' = NX_TCP_CLOSED" if "st \<noteq> NX_SUCCESS"
      proof -
        from that woken(11) obtain s5 where
          "w' = w4\<lparr>tcp_sockets := (tcp_sockets w4)
                      (socket_ptr \<mapsto> s5\<lparr>nx_tcp_socket_state := NX_TCP_CLOSED\<rparr>)\<rparr>"
          by (auto simp: NX_SUCCESS_def)
        then show ?thesis using nz by (simp add: load_def)
      qed
      from a b show ?thesis by blast
    qed
  qed
qed

subsection \<open>Connects of the concrete system\<close>

text \<open>
  A connect of the concrete system that waits and wakes with a failure status:
  the socket is closed, its connect address, connect port and next hop are as
  connect set them before it sent the SYN.
\<close>

lemma ex_connect_woken:
  "\<exists>w' tr s'. nx_tcp_client_socket_connect ex_cfg ex_env ex_world 30 0x0A000001 80 5
                  = Inr (0x38, w', tr) \<and>
     (NX_TCP_SOCKET_THREAD_SUSPEND 30 NX_TCP_CONNECT_CLEANUP 1 5,
        ex_world\<lparr>ips := [1 \<mapsto> ex_ip\<lparr>nx_ip_tcp_active_connections := 1, nx_ip_tcp_connections := 1\<rparr>],
                  tcp_sockets := [30 \<mapsto> tcp_connect_prepare ex_env 1001
                     (ex_tcp_socket\<lparr>nx_tcp_socket_next_hop_address := 0x0A000001,
                        nx_tcp_socket_state := NX_TCP_SYN_SENT,
                        nx_tcp_socket_connect_ip := 0x0A000001,
                        nx_tcp_socket_connect_port := 80\<rparr>)]\<rparr>) \<in> set tr \<and>
     tcp_sockets w' 30 = Some s' \<and> nx_tcp_socket_state s' = NX_TCP_CLOSED \<and>
     nx_tcp_socket_connect_ip s' = 0x0A000001 \<and> nx_tcp_socket_connect_port s' = 80 \<and>
     nx_tcp_socket_next_hop_address s' = 0x0A000001"
  by (simp add: nx_tcp_client_socket_connect_def tcp_connect_send_syn_def load_def NX_NULL_def
        ex_world_def ex_env_def ex_cfg_def ex_ip_def ex_tcp_socket_def ex_wake_def ex_thread_def
        tcp_connect_prepare_def Let_def NX_SUCCESS_def)

lemma ex_connect_in_progress:
  "\<exists>w' tr ws s. nx_tcp_client_socket_connect ex_cfg ex_env (ex_world\<lparr>tx_thread_current_ptr := c\<rparr>)
                    30 0x0A000001 80 (if c = 2001 then 5 else 0) = Inr (NX_IN_PROGRESS, w', tr) \<and>
     (NX_TCP_PACKET_SEND_SYN 30 0x12341235, ws) \<in> set tr \<and>
     tcp_sockets ws 30 = Some s \<and> nx_tcp_socket_state s = NX_TCP_SYN_SENT \<and>
     tx_thread_current_ptr ws = c"
  by (simp add: nx_tcp_client_socket_connect_def tcp_connect_send_syn_def load_def NX_NULL_def
        ex_world_def ex_env_def ex_cfg_def ex_ip_def ex_tcp_socket_def
        tcp_connect_prepare_def tcp_initial_sequence_def NX_SHIFT_BY_16_def Let_def NX_SUCCESS_def)

text \<open>
  Without the distinction of the return paths the statement fails at the guards:
  a connect on the established socket of the concrete system returns
  \<^verbatim>\<open>NX_NOT_CLOSED\<close>, and the socket is as before, established, with its connect
  address and port set.
\<close>

theorem tcp_connect_error_closed_counterexample:
  "nx_tcp_client_socket_connect ex_cfg ex_env ex_world_established 30 0x0A000001 80 0
     = Inr (NX_NOT_CLOSED, ex_world_established,
            [(TX_MUTEX_GET 1, ex_world_established), (TX_MUTEX_PUT 1, ex_world_established)])
   \<and> NX_NOT_CLOSED \<noteq> NX_SUCCESS
   \<and> map_option nx_tcp_socket_state (tcp_sockets ex_world_established 30) = Some NX_TCP_ESTABLISHED
   \<and> map_option nx_tcp_socket_connect_ip (tcp_sockets ex_world_established 30) = Some 0x0A000001
   \<and> map_option nx_tcp_socket_connect_port (tcp_sockets ex_world_established 30) = Some 80"
  by (simp add: nx_tcp_client_socket_connect_def load_def NX_NULL_def ex_world_established_def
        ex_world_def ex_tcp_socket_def NX_NOT_CLOSED_def NX_SUCCESS_def Let_def)

lemma ex_connect_small_mtu:
  "\<exists>w'. nx_tcp_client_socket_connect ex_cfg ex_env ex_world 30 0x0A000002 80 5
           = Inr (NX_INVALID_INTERFACE, w',
                  [(TX_MUTEX_GET 1, ex_world), (NX_IP_ROUTE_FIND 1 0x0A000002, ex_world),
                   (TX_MUTEX_PUT 1, w')])"
  by (simp add: nx_tcp_client_socket_connect_def load_def NX_NULL_def ex_world_def ex_env_def
        ex_cfg_def ex_tcp_socket_def Let_def NX_SUCCESS_def)

theorem tcp_connect_error_states_witness:
  "(\<exists>w' tr s'. nx_tcp_client_socket_connect ex_cfg ex_env ex_world 30 0x0A000001 80 5
                   = Inr (0x38, w', tr) \<and>
      (0x38 :: UINT) \<noteq> NX_SUCCESS \<and>
      load (tcp_sockets w') 30 = Inr s' \<and> nx_tcp_socket_state s' = NX_TCP_CLOSED) \<and>
   (\<exists>w' tr s'. nx_tcp_client_socket_connect ex_cfg ex_env ex_world 30 0x0A000002 80 5
                   = Inr (NX_INVALID_INTERFACE, w', tr) \<and>
      load (tcp_sockets w') 30 = Inr s' \<and> nx_tcp_socket_state s' = NX_TCP_CLOSED \<and>
      nx_tcp_socket_connect_ip s' = 0 \<and> nx_tcp_socket_connect_port s' = 0 \<and>
      nx_tcp_socket_next_hop_address s' = 0)"
proof -
  have s0: "load (tcp_sockets ex_world) 30 = Inr ex_tcp_socket"
    by (simp add: load_def ex_world_def NX_NULL_def)
  from ex_connect_woken obtain w' tr ws where
    run: "nx_tcp_client_socket_connect ex_cfg ex_env ex_world 30 0x0A000001 80 5 = Inr (0x38, w', tr)"
    and sus: "(NX_TCP_SOCKET_THREAD_SUSPEND 30 NX_TCP_CONNECT_CLEANUP 1 5, ws) \<in> set tr"
    by blast
  have nz: "(0x38 :: UINT) \<noteq> NX_SUCCESS" by (simp add: NX_SUCCESS_def)
  from tcp_connect_error_states[OF run s0] sus nz run
  have a: "\<exists>w' tr s'. nx_tcp_client_socket_connect ex_cfg ex_env ex_world 30 0x0A000001 80 5
                   = Inr (0x38, w', tr) \<and>
      (0x38 :: UINT) \<noteq> NX_SUCCESS \<and>
      load (tcp_sockets w') 30 = Inr s' \<and> nx_tcp_socket_state s' = NX_TCP_CLOSED" by blast
  from ex_connect_small_mtu obtain w2 where
    run2: "nx_tcp_client_socket_connect ex_cfg ex_env ex_world 30 0x0A000002 80 5
             = Inr (NX_INVALID_INTERFACE, w2,
                    [(TX_MUTEX_GET 1, ex_world), (NX_IP_ROUTE_FIND 1 0x0A000002, ex_world),
                     (TX_MUTEX_PUT 1, w2)])" by blast
  from tcp_connect_error_states[OF run2 s0] run2
  have b: "\<exists>w' tr s'. nx_tcp_client_socket_connect ex_cfg ex_env ex_world 30 0x0A000002 80 5
                   = Inr (NX_INVALID_INTERFACE, w', tr) \<and>
      load (tcp_sockets w') 30 = Inr s' \<and> nx_tcp_socket_state s' = NX_TCP_CLOSED \<and>
      nx_tcp_socket_connect_ip s' = 0 \<and> nx_tcp_socket_connect_port s' = 0 \<and>
      nx_tcp_socket_next_hop_address s' = 0" by auto
  from a b show ?thesis by blast
qed

theorem tcp_connect_small_mtu_witness:
  "\<exists>w' tr ip' s'.
     nx_tcp_client_socket_connect ex_cfg ex_env ex_world 30 0x0A000002 80 5
       = Inr (NX_INVALID_INTERFACE, w', tr) \<and>
     load (ips w') 1 = Inr ip' \<and>
     nx_ip_tcp_active_connections ip' = 0 \<and> nx_ip_tcp_connections ip' = 0 \<and>
     load (tcp_sockets w') 30 = Inr s' \<and>
     nx_tcp_socket_state s' = NX_TCP_CLOSED \<and> nx_tcp_socket_connect_ip s' = 0 \<and>
     nx_tcp_socket_connect_port s' = 0 \<and> nx_tcp_socket_next_hop_address s' = 0"
proof -
  have s: "load (tcp_sockets ex_world) 30 = Inr ex_tcp_socket"
    by (simp add: load_def ex_world_def NX_NULL_def)
  have ip: "load (ips ex_world) (nx_tcp_socket_ip_ptr ex_tcp_socket) = Inr ex_ip"
    by (simp add: load_def ex_world_def ex_tcp_socket_def NX_NULL_def)
  have bound: "nx_tcp_socket_bound_next ex_tcp_socket \<noteq> NX_NULL"
    by (simp add: ex_tcp_socket_def NX_NULL_def)
  have closed: "nx_tcp_socket_state ex_tcp_socket = NX_TCP_CLOSED"
    by (simp add: ex_tcp_socket_def)
  have route: "nx_ip_route_find ex_env ex_world (nx_tcp_socket_ip_ptr ex_tcp_socket) 0x0A000002 NX_NULL
                 (nx_tcp_socket_next_hop_address ex_tcp_socket) = (NX_SUCCESS, 1002, 0x0A000002)"
    by (simp add: ex_env_def NX_SUCCESS_def)
  have itf: "load (interfaces ex_world) 1002 = Inr \<lparr>nx_interface_ip_mtu_size = 20\<rparr>"
    by (simp add: load_def ex_world_def NX_NULL_def)
  have small: "unat (nx_interface_ip_mtu_size \<lparr>nx_interface_ip_mtu_size = 20\<rparr>)
                 < sizeof_NX_IP_HEADER ex_cfg + sizeof_NX_TCP_HEADER ex_cfg"
    by (simp add: ex_cfg_def)
  from tcp_connect_small_mtu[OF s ip bound closed route itf small, of 80 5]
  show ?thesis by (simp add: ex_tcp_socket_def ex_ip_def)
qed

theorem tcp_connect_sequence_number_witness:
  "\<exists>w' tr ws s.
     nx_tcp_client_socket_connect ex_cfg ex_env (ex_world\<lparr>tx_thread_current_ptr := 400\<rparr>)
       30 0x0A000001 80 0 = Inr (NX_IN_PROGRESS, w', tr) \<and>
     (NX_TCP_PACKET_SEND_SYN 30 0x12341235, ws) \<in> set tr \<and>
     tcp_sockets ws 30 = Some s \<and> nx_tcp_socket_tx_sequence s = 0x12341236 \<and>
     drop_bit 16 (0x12341235 :: ULONG) = word_of_int (nx_rand ex_env 0) \<and>
     (0x12341235 :: ULONG) AND 0xFFFF = word_of_int (nx_rand ex_env 1)"
proof -
  from ex_connect_in_progress[of 400] obtain w' tr ws where
    run: "nx_tcp_client_socket_connect ex_cfg ex_env (ex_world\<lparr>tx_thread_current_ptr := 400\<rparr>)
            30 0x0A000001 80 0 = Inr (NX_IN_PROGRESS, w', tr)"
    and syn: "(NX_TCP_PACKET_SEND_SYN 30 0x12341235, ws) \<in> set tr"
    by auto
  have s0: "load (tcp_sockets (ex_world\<lparr>tx_thread_current_ptr := 400\<rparr>)) 30 = Inr ex_tcp_socket"
    by (simp add: load_def ex_world_def NX_NULL_def)
  have z: "nx_tcp_socket_tx_sequence ex_tcp_socket = 0" by (simp add: ex_tcp_socket_def)
  have r: "0 \<le> nx_rand ex_env 0" "nx_rand ex_env 0 < 65536" "0 \<le> nx_rand ex_env 1"
       "nx_rand ex_env 1 < 65536" by (simp_all add: ex_env_def)
  from tcp_connect_sequence_number[OF run s0 syn] z r run syn show ?thesis by auto
qed

theorem tcp_connect_ip_thread_in_progress_witness:
  "\<exists>w' tr.
     nx_tcp_client_socket_connect ex_cfg ex_env (ex_world\<lparr>tx_thread_current_ptr := 2001\<rparr>)
       30 0x0A000001 80 5 = Inr (NX_IN_PROGRESS, w', tr) \<and>
     (\<forall>a r b t ws'. (NX_TCP_SOCKET_THREAD_SUSPEND a r b t, ws') \<notin> set tr)"
proof -
  from ex_connect_in_progress[of 2001] obtain w' tr ws s where
    run: "nx_tcp_client_socket_connect ex_cfg ex_env (ex_world\<lparr>tx_thread_current_ptr := 2001\<rparr>)
            30 0x0A000001 80 5 = Inr (NX_IN_PROGRESS, w', tr)"
    and syn: "(NX_TCP_PACKET_SEND_SYN 30 0x12341235, ws) \<in> set tr"
    and s: "tcp_sockets ws 30 = Some s" "nx_tcp_socket_state s = NX_TCP_SYN_SENT"
    and c: "tx_thread_current_ptr ws = 2001"
    by auto
  have s0: "load (tcp_sockets (ex_world\<lparr>tx_thread_current_ptr := 2001\<rparr>)) 30 = Inr ex_tcp_socket"
    by (simp add: load_def ex_world_def NX_NULL_def)
  have s4: "load (tcp_sockets (nx_tcp_packet_send_syn ex_env ws 30 0x12341235)) 30 = Inr s"
    using s by (simp add: ex_env_def load_def NX_NULL_def)
  have ne: "nx_tcp_socket_state s \<noteq> NX_TCP_ESTABLISHED" using s by simp
  have ipt: "tx_thread_current_ptr (nx_tcp_packet_send_syn ex_env ws 30 0x12341235)
               = address_nx_ip_thread ex_cfg (nx_tcp_socket_ip_ptr ex_tcp_socket)"
    using c by (simp add: ex_env_def ex_cfg_def ex_tcp_socket_def)
  from tcp_connect_ip_thread_in_progress[OF run s0 syn s4 ne ipt] run show ?thesis by blast
qed

section \<open>Properties of the UDP bind\<close>

subsection \<open>Circular lists\<close>

lemma load_Inr: "load m p = Inr v \<longleftrightarrow> p \<noteq> NX_NULL \<and> m p = Some v"
  by (auto simp: load_def split: option.splits)

lemma cycle_succ: "k < n \<Longrightarrow> (k + 1) mod n = (if Suc k = n then 0 else Suc k)" for k n :: nat
  by (auto simp: mod_Suc)

lemma cycle_pred: "k < n \<Longrightarrow> (k + n - 1) mod n = (if k = 0 then n - 1 else k - 1)" for k n :: nat
proof (cases k)
  case 0
  assume "k < n"
  with 0 show ?thesis by simp
next
  case (Suc j)
  assume "k < n"
  with Suc have "(k + n - 1) mod n = (j + n) mod n" by simp
  also have "\<dots> = j" using Suc \<open>k < n\<close> by simp
  finally show ?thesis using Suc by simp
qed

lemma bucket_cycle_alt:
  "bucket_cycle socks xs \<longleftrightarrow>
     distinct xs \<and> NX_NULL \<notin> set xs \<and>
     (\<forall>k<length xs. \<exists>s. socks (xs ! k) = Some s
        \<and> nx_udp_socket_bound_next s = (if Suc k = length xs then xs ! 0 else xs ! Suc k)
        \<and> nx_udp_socket_bound_previous s = (if k = 0 then xs ! (length xs - 1) else xs ! (k - 1)))"
proof -
  have "(\<exists>s. socks (xs ! k) = Some s
        \<and> nx_udp_socket_bound_next s = xs ! ((k + 1) mod length xs)
        \<and> nx_udp_socket_bound_previous s = xs ! ((k + length xs - 1) mod length xs))
     \<longleftrightarrow> (\<exists>s. socks (xs ! k) = Some s
        \<and> nx_udp_socket_bound_next s = (if Suc k = length xs then xs ! 0 else xs ! Suc k)
        \<and> nx_udp_socket_bound_previous s = (if k = 0 then xs ! (length xs - 1) else xs ! (k - 1)))"
    if "k < length xs" for k
    by (simp only: cycle_succ[OF that] cycle_pred[OF that] if_distrib[of "\<lambda>i. xs ! i"])
  then show ?thesis unfolding bucket_cycle_def by blast
qed

lemma bucket_cycle_member:
  assumes "bucket_cycle socks xs" and "k < length xs"
  obtains s where "socks (xs ! k) = Some s" "xs ! k \<noteq> NX_NULL"
    "nx_udp_socket_bound_next s = (if Suc k = length xs then xs ! 0 else xs ! Suc k)"
    "nx_udp_socket_bound_previous s = (if k = 0 then xs ! (length xs - 1) else xs ! (k - 1))"
proof -
  from assms obtain s where "socks (xs ! k) = Some s"
    "nx_udp_socket_bound_next s = (if Suc k = length xs then xs ! 0 else xs ! Suc k)"
    "nx_udp_socket_bound_previous s = (if k = 0 then xs ! (length xs - 1) else xs ! (k - 1))"
    unfolding bucket_cycle_alt by blast
  moreover have "xs ! k \<noteq> NX_NULL"
    using assms unfolding bucket_cycle_alt by (metis nth_mem)
  ultimately show thesis using that by blast
qed

lemma bucket_cycle_next_not_null:
  assumes "bucket_cycle socks xs" and "a \<in> set xs" and "socks a = Some s"
  shows "nx_udp_socket_bound_next s \<noteq> NX_NULL"
proof -
  from assms(2) obtain k where k: "k < length xs" "xs ! k = a" by (auto simp: in_set_conv_nth)
  from assms(1) k(1) obtain s' where s': "socks (xs ! k) = Some s'"
    "nx_udp_socket_bound_next s' = (if Suc k = length xs then xs ! 0 else xs ! Suc k)"
    by (rule bucket_cycle_member)
  have "s' = s" using s'(1) k(2) assms(3) by simp
  moreover have "nx_udp_socket_bound_next s' \<in> set xs" using s'(2) k(1) by (auto intro: nth_mem)
  moreover have "NX_NULL \<notin> set xs" using assms(1) by (simp add: bucket_cycle_def)
  ultimately show ?thesis by metis
qed

text \<open>The walk over a well-formed bucket returns, with a member of the bucket.\<close>

lemma udp_port_search_cycle:
  assumes c: "bucket_cycle socks xs" and k: "k < length xs"
  shows "\<exists>r. udp_port_search socks port (xs ! 0) (xs ! k) = Some (Inr r) \<and> r \<in> set xs \<and>
           ((\<exists>j s. k \<le> j \<and> j < length xs \<and> socks (xs ! j) = Some s \<and> nx_udp_socket_port s = port)
              \<longrightarrow> (\<exists>s. socks r = Some s \<and> nx_udp_socket_port s = port))"
  using k
proof (induction "length xs - k" arbitrary: k)
  case 0
  then show ?case by simp
next
  case (Suc m)
  from c Suc.prems obtain s where s: "socks (xs ! k) = Some s" "xs ! k \<noteq> NX_NULL"
    "nx_udp_socket_bound_next s = (if Suc k = length xs then xs ! 0 else xs ! Suc k)"
    by (rule bucket_cycle_member)
  have ld: "load socks (xs ! k) = Inr s" using s by (simp add: load_Inr)
  have d: "distinct xs" using c by (simp add: bucket_cycle_def)
  show ?case
  proof (cases "nx_udp_socket_port s = port")
    case True
    then have "udp_port_search socks port (xs ! 0) (xs ! k) = Some (Inr (xs ! k))"
      by (subst udp_port_search.simps) (simp add: ld)
    then show ?thesis using Suc.prems s True by auto
  next
    case np: False
    show ?thesis
    proof (cases "Suc k = length xs")
      case True
      then have "udp_port_search socks port (xs ! 0) (xs ! k) = Some (Inr (xs ! 0))"
        using np s by (subst udp_port_search.simps) (simp add: ld)
      moreover have "\<not> (\<exists>j s'. k \<le> j \<and> j < length xs \<and> socks (xs ! j) = Some s'
                           \<and> nx_udp_socket_port s' = port)"
      proof
        assume "\<exists>j s'. k \<le> j \<and> j < length xs \<and> socks (xs ! j) = Some s' \<and> nx_udp_socket_port s' = port"
        then obtain j s' where j: "k \<le> j" "j < length xs" "socks (xs ! j) = Some s'"
          "nx_udp_socket_port s' = port" by blast
        then have "j = k" using True by simp
        then show False using j s np by simp
      qed
      ultimately show ?thesis using Suc.prems by (auto intro: nth_mem)
    next
      case False
      then have lt: "Suc k < length xs" using Suc.prems by simp
      have pos: "0 < length xs" using lt by linarith
      have ne: "xs ! Suc k \<noteq> xs ! 0"
        using nth_eq_iff_index_eq[OF d lt pos] by simp
      have step: "udp_port_search socks port (xs ! 0) (xs ! k)
                    = udp_port_search socks port (xs ! 0) (xs ! Suc k)"
        using np s False ne by (subst udp_port_search.simps) (simp add: ld)
      have m: "m = length xs - Suc k" using Suc.hyps(2) by simp
      from Suc.hyps(1)[OF m lt] obtain r where r:
        "udp_port_search socks port (xs ! 0) (xs ! Suc k) = Some (Inr r)" "r \<in> set xs"
        "(\<exists>j s. Suc k \<le> j \<and> j < length xs \<and> socks (xs ! j) = Some s \<and> nx_udp_socket_port s = port)
              \<longrightarrow> (\<exists>s. socks r = Some s \<and> nx_udp_socket_port s = port)"
        by blast
      have "(\<exists>j s. Suc k \<le> j \<and> j < length xs \<and> socks (xs ! j) = Some s \<and> nx_udp_socket_port s = port)"
        if "\<exists>j s. k \<le> j \<and> j < length xs \<and> socks (xs ! j) = Some s \<and> nx_udp_socket_port s = port"
      proof -
        from that obtain j s' where j: "k \<le> j" "j < length xs" "socks (xs ! j) = Some s'"
          "nx_udp_socket_port s' = port" by blast
        have "j \<noteq> k" using j s np by auto
        then have "Suc k \<le> j" using j(1) by simp
        then show ?thesis using j by blast
      qed
      with r step show ?thesis by auto
    qed
  qed
qed

subsection \<open>The binding socket and the table\<close>

lemma udp_hash_le: "udp_hash cfg port \<le> NX_UDP_PORT_TABLE_MASK cfg"
  by (simp add: udp_hash_def word_and_le1)

text \<open>
  Line 133 computes the index the spec writes: the sum may wrap round on 32 bits,
  but the mask cuts off what wraps.
\<close>

lemma and_take_bit_mask:
  assumes "m < 2 ^ n"
  shows "take_bit n x AND m = x AND (m::nat)"
proof (rule bit_eqI)
  fix k
  have "bit m k \<Longrightarrow> k < n"
    using assms by (metis bit_take_bit_iff take_bit_nat_eq_self)
  then show "bit (take_bit n x AND m) k = bit (x AND m) k"
    by (auto simp: bit_simps)
qed

lemma udp_hash_bucket_index:
  "unat (udp_hash cfg port) = bucket_index (udp_port_table_size cfg) (unat port)"
proof -
  let ?m = "unat (NX_UDP_PORT_TABLE_MASK cfg)"
  have m: "?m < 2 ^ 32" using unsigned_less[of "NX_UDP_PORT_TABLE_MASK cfg"] by simp
  have "unat (udp_hash cfg port) = unat (port + drop_bit 8 port) AND ?m"
    by (simp add: udp_hash_def unsigned_and_eq)
  also have "unat (port + drop_bit 8 port) = take_bit 32 (unat port + drop_bit 8 (unat port))"
    by (simp add: unat_word_ariths unat_drop_bit_eq take_bit_eq_mod)
  also have "take_bit 32 (unat port + drop_bit 8 (unat port)) AND ?m
               = (unat port + drop_bit 8 (unat port)) AND ?m"
    by (rule and_take_bit_mask[OF m])
  finally show ?thesis by (simp add: bucket_index_def udp_port_table_size_def)
qed

lemma bucket_cycle_frame:
  assumes "bucket_cycle socks xs" and "a \<notin> set xs"
  shows "bucket_cycle (socks(a \<mapsto> v)) xs"
  using assms unfolding bucket_cycle_def by (auto simp: nth_mem)

lemma bucket_ok_frame:
  assumes "bucket_ok cfg socks i head xs" and "a \<notin> set xs"
  shows "bucket_ok cfg (socks(a \<mapsto> v)) i head xs"
  using assms bucket_cycle_frame[of socks xs a v] unfolding bucket_ok_def by auto

lemma unbound_not_member:
  assumes wf: "port_table_ok cfg w ipp buckets"
    and s: "udp_sockets w sp = Some s0" and nb: "nx_udp_socket_bound_next s0 = NX_NULL"
    and i: "i \<le> NX_UDP_PORT_TABLE_MASK cfg"
  shows "sp \<notin> set (buckets i)"
proof
  assume m: "sp \<in> set (buckets i)"
  from wf i obtain ip :: NX_IP
    where "bucket_ok cfg (udp_sockets w) i (nx_ip_udp_port_table ip i) (buckets i)"
    unfolding port_table_ok_def by auto
  then have "bucket_cycle (udp_sockets w) (buckets i)" by (simp add: bucket_ok_def)
  from bucket_cycle_next_not_null[OF this m s] nb show False by simp
qed

lemma port_table_ok_frame:
  assumes wf: "port_table_ok cfg w ipp buckets"
    and s: "udp_sockets w sp = Some s0" and nb: "nx_udp_socket_bound_next s0 = NX_NULL"
    and u: "udp_sockets w' = (udp_sockets w)(sp \<mapsto> v)" and i: "ips w' = ips w"
  shows "port_table_ok cfg w' ipp buckets"
proof -
  from wf obtain ip where ip: "load (ips w) ipp = Inr ip"
    and b: "\<And>i. i \<le> NX_UDP_PORT_TABLE_MASK cfg \<Longrightarrow>
              bucket_ok cfg (udp_sockets w) i (nx_ip_udp_port_table ip i) (buckets i)"
    unfolding port_table_ok_def by blast
  have "bucket_ok cfg (udp_sockets w') i (nx_ip_udp_port_table ip i) (buckets i)"
    if "i \<le> NX_UDP_PORT_TABLE_MASK cfg" for i
    unfolding u by (rule bucket_ok_frame[OF b[OF that] unbound_not_member[OF wf s nb that]])
  then show ?thesis using ip unfolding port_table_ok_def i by blast
qed

text \<open>
  What the bind does once the port is known, on a well-formed table: the bucket
  is empty, or no member holds the port, or a member holds it.
\<close>

lemma udp_bind_port_cases:
  assumes wf: "port_table_ok cfg w ipp buckets"
    and sk: "load (udp_sockets w) sp = Inr s0"
    and nb: "nx_udp_socket_bound_next s0 = NX_NULL"
    and w1: "w1 = w\<lparr>udp_sockets := (udp_sockets w)(sp \<mapsto> s0\<lparr>nx_udp_socket_port := port\<rparr>)\<rparr>"
  obtains
    (empty) ip where
      "load (ips w) ipp = Inr ip" "buckets (udp_hash cfg port) = []"
      "nx_ip_udp_port_table ip (udp_hash cfg port) = NX_NULL"
      "udp_bind_port cfg e w tr0 sp ipp port wait_option =
         (case udp_bucket_first w1 ipp (udp_hash cfg port) sp of
            Inl f \<Rightarrow> Some (Inl f)
          | Inr w2 \<Rightarrow> Some (Inr (NX_SUCCESS, w2, tr0 @ [(TX_MUTEX_PUT ipp, w2)])))"
  | (free) ip where
      "load (ips w) ipp = Inr ip" "buckets (udp_hash cfg port) \<noteq> []"
      "nx_ip_udp_port_table ip (udp_hash cfg port) = hd (buckets (udp_hash cfg port))"
      "\<forall>a\<in>set (buckets (udp_hash cfg port)). \<forall>s. udp_sockets w a = Some s
          \<longrightarrow> nx_udp_socket_port s \<noteq> port"
      "udp_bind_port cfg e w tr0 sp ipp port wait_option =
         (case udp_bucket_append w1 (hd (buckets (udp_hash cfg port))) sp of
            Inl f \<Rightarrow> Some (Inl f)
          | Inr w2 \<Rightarrow> Some (Inr (NX_SUCCESS, w2, tr0 @ [(TX_MUTEX_PUT ipp, w2)])))"
  | (taken) ip owner so where
      "load (ips w) ipp = Inr ip" "owner \<in> set (buckets (udp_hash cfg port))"
      "udp_sockets w owner = Some so" "nx_udp_socket_port so = port" "owner \<noteq> sp"
      "owner \<noteq> NX_NULL"
      "udp_bind_port cfg e w tr0 sp ipp port wait_option =
         (if wait_option \<noteq> 0
          then (case udp_bind_suspend_prepare w1 sp owner wait_option of
                  Inl f \<Rightarrow> Some (Inl f)
                | Inr w2 \<Rightarrow>
                  (case load (threads (tx_thread_system_suspend e w2 (tx_thread_current_ptr w)))
                          (tx_thread_current_ptr w) of
                     Inl f \<Rightarrow> Some (Inl f)
                   | Inr t \<Rightarrow>
                     Some (Inr (tx_thread_suspend_status t,
                                tx_thread_system_suspend e w2 (tx_thread_current_ptr w),
                                tr0 @ [(TX_MUTEX_PUT ipp, w2),
                                       (TX_THREAD_SYSTEM_SUSPEND (tx_thread_current_ptr w), w2)]))))
          else Some (Inr (NX_PORT_UNAVAILABLE, w1, tr0 @ [(TX_MUTEX_PUT ipp, w1)])))"
proof -
  let ?idx = "udp_hash cfg port"
  let ?xs = "buckets ?idx"
  from wf obtain ip where ip: "load (ips w) ipp = Inr ip"
    and b: "bucket_ok cfg (udp_sockets w) ?idx (nx_ip_udp_port_table ip ?idx) ?xs"
    unfolding port_table_ok_def using udp_hash_le by blast
  let ?head = "nx_ip_udp_port_table ip ?idx"
  have s0: "udp_sockets w sp = Some s0" "sp \<noteq> NX_NULL" using sk by (simp_all add: load_Inr)
  have nm: "sp \<notin> set ?xs" by (rule unbound_not_member[OF wf s0(1) nb udp_hash_le])
  have up: "udp_update sp (\<lambda>s. s\<lparr>nx_udp_socket_port := port\<rparr>) w = Inr w1"
    by (simp add: udp_update_def sk w1)
  have ip1: "load (ips w1) ipp = Inr ip" using ip by (simp add: w1)
  have cyc: "bucket_cycle (udp_sockets w1) ?xs"
    using b bucket_cycle_frame[OF _ nm] by (simp add: w1 bucket_ok_def)
  have same: "udp_sockets w1 a = udp_sockets w a" if "a \<in> set ?xs" for a
    using that nm by (auto simp: w1)
  have unf: "udp_bind_port cfg e w tr0 sp ipp port wait_option =
     (case (if ?head \<noteq> NX_NULL then udp_port_search (udp_sockets w1) port ?head ?head
            else Some (Inr ?head)) of
        None \<Rightarrow> None
      | Some (Inl f) \<Rightarrow> Some (Inl f)
      | Some (Inr search_ptr) \<Rightarrow>
      case (if search_ptr = NX_NULL then Inr True
            else case load (udp_sockets w1) search_ptr of
                   Inl f \<Rightarrow> Inl f
                 | Inr found \<Rightarrow> Inr (nx_udp_socket_port found \<noteq> port)) of
        Inl f \<Rightarrow> Some (Inl f)
      | Inr available \<Rightarrow>
      if available
      then
       (case (if search_ptr \<noteq> NX_NULL then udp_bucket_append w1 ?head sp
              else udp_bucket_first w1 ipp ?idx sp) of
          Inl f \<Rightarrow> Some (Inl f)
        | Inr w2 \<Rightarrow> Some (Inr (NX_SUCCESS, w2, tr0 @ [(TX_MUTEX_PUT ipp, w2)])))
      else if wait_option \<noteq> 0
      then
       (case udp_bind_suspend_prepare w1 sp search_ptr wait_option of
          Inl f \<Rightarrow> Some (Inl f)
        | Inr w2 \<Rightarrow>
         (let thread_ptr = tx_thread_current_ptr w1;
              w3 = tx_thread_system_suspend e w2 thread_ptr
          in
          case load (threads w3) thread_ptr of
            Inl f \<Rightarrow> Some (Inl f)
          | Inr t \<Rightarrow>
            Some (Inr (tx_thread_suspend_status t, w3,
                       tr0 @ [(TX_MUTEX_PUT ipp, w2), (TX_THREAD_SYSTEM_SUSPEND thread_ptr, w2)]))))
      else Some (Inr (NX_PORT_UNAVAILABLE, w1, tr0 @ [(TX_MUTEX_PUT ipp, w1)])))"
    by (simp add: udp_bind_port_def up ip1 Let_def)
  have cur: "tx_thread_current_ptr w1 = tx_thread_current_ptr w" by (simp add: w1)
  show thesis
  proof (cases "?xs = []")
    case True
    then have h: "?head = NX_NULL" using b by (simp add: bucket_ok_def)
    show thesis
      by (rule empty[OF ip True h]) (simp add: unf h)
  next
    case ne: False
    then have h: "?head = hd ?xs" using b by (simp add: bucket_ok_def)
    have h0: "?xs ! 0 = ?head" using h ne by (simp add: hd_conv_nth)
    have nn: "NX_NULL \<notin> set ?xs" using cyc by (simp add: bucket_cycle_def)
    have hn: "?head \<noteq> NX_NULL" using nn hd_in_set[OF ne] h by metis
    have len: "0 < length ?xs" using ne by simp
    from udp_port_search_cycle[OF cyc len, of port] obtain r where
      r0: "udp_port_search (udp_sockets w1) port (?xs ! 0) (?xs ! 0) = Some (Inr r)"
      and r2: "r \<in> set ?xs"
      and found: "(\<exists>j s. 0 \<le> j \<and> j < length ?xs \<and> udp_sockets w1 (?xs ! j) = Some s
                         \<and> nx_udp_socket_port s = port)
                    \<longrightarrow> (\<exists>s. udp_sockets w1 r = Some s \<and> nx_udp_socket_port s = port)"
      by (elim exE conjE)
    have r: "udp_port_search (udp_sockets w1) port ?head ?head = Some (Inr r)" "r \<in> set ?xs"
      using r0 r2 by (simp_all only: h0)
    have rn: "r \<noteq> NX_NULL" using r(2) nn by metis
    from r(2) obtain k where k: "k < length ?xs" "?xs ! k = r" by (auto simp: in_set_conv_nth)
    from cyc k(1) obtain sr where "udp_sockets w1 (?xs ! k) = Some sr" by (rule bucket_cycle_member)
    then have sr: "udp_sockets w r = Some sr" "udp_sockets w1 r = Some sr"
      using k(2) same[OF r(2)] by simp_all
    have lr: "load (udp_sockets w1) r = Inr sr" using sr rn by (simp add: load_Inr)
    show thesis
    proof (cases "nx_udp_socket_port sr = port")
      case True
      have "r \<noteq> sp" using r(2) nm by auto
      moreover have "udp_bind_port cfg e w tr0 sp ipp port wait_option =
         (if wait_option \<noteq> 0
          then (case udp_bind_suspend_prepare w1 sp r wait_option of
                  Inl f \<Rightarrow> Some (Inl f)
                | Inr w2 \<Rightarrow>
                  (case load (threads (tx_thread_system_suspend e w2 (tx_thread_current_ptr w)))
                          (tx_thread_current_ptr w) of
                     Inl f \<Rightarrow> Some (Inl f)
                   | Inr t \<Rightarrow>
                     Some (Inr (tx_thread_suspend_status t,
                                tx_thread_system_suspend e w2 (tx_thread_current_ptr w),
                                tr0 @ [(TX_MUTEX_PUT ipp, w2),
                                       (TX_THREAD_SYSTEM_SUSPEND (tx_thread_current_ptr w), w2)]))))
          else Some (Inr (NX_PORT_UNAVAILABLE, w1, tr0 @ [(TX_MUTEX_PUT ipp, w1)])))"
        unfolding unf by (simp add: hn r(1) rn lr True Let_def cur split: sum.splits)
      ultimately show thesis
        using True sr(1) rn r(2) ip by (intro taken[of ip r sr])
    next
      case False
      have "udp_bind_port cfg e w tr0 sp ipp port wait_option =
         (case udp_bucket_append w1 (hd ?xs) sp of
            Inl f \<Rightarrow> Some (Inl f)
          | Inr w2 \<Rightarrow> Some (Inr (NX_SUCCESS, w2, tr0 @ [(TX_MUTEX_PUT ipp, w2)])))"
        unfolding unf h[symmetric] by (simp add: hn r(1) rn lr False)
      moreover have "\<forall>a\<in>set ?xs. \<forall>s. udp_sockets w a = Some s \<longrightarrow> nx_udp_socket_port s \<noteq> port"
      proof (intro ballI allI impI notI)
        fix a s assume a: "a \<in> set ?xs" "udp_sockets w a = Some s" "nx_udp_socket_port s = port"
        from a(1) obtain j where j: "j < length ?xs" "?xs ! j = a" by (auto simp: in_set_conv_nth)
        have "udp_sockets w1 (?xs ! j) = Some s" using j a same[OF a(1)] by simp
        with found j(1) a(3) have "\<exists>s. udp_sockets w1 r = Some s \<and> nx_udp_socket_port s = port"
          by blast
        with sr(2) False show False by simp
      qed
      ultimately show thesis by (intro free[OF ip ne h])
    qed
  qed
qed

lemma udp_bind_known_port:
  assumes sk: "load (udp_sockets w) sp = Inr s0"
    and ip: "load (ips w) (nx_udp_socket_ip_ptr s0) = Inr ip"
    and nb: "nx_udp_socket_bound_next s0 = NX_NULL"
    and np: "nx_udp_socket_bind_in_progress s0 = NX_NULL"
    and port: "port \<noteq> NX_ANY_PORT"
  shows "nx_udp_socket_bind cfg e w sp port wait_option =
           udp_bind_port cfg e w [(TX_MUTEX_GET (nx_udp_socket_ip_ptr s0), w)] sp
             (nx_udp_socket_ip_ptr s0) port wait_option"
  using assms by (simp add: nx_udp_socket_bind_def Let_def)

lemma port_table_ok_ip:
  assumes "port_table_ok cfg w ipp buckets"
  obtains ip where "load (ips w) ipp = Inr ip"
  using assms unfolding port_table_ok_def by blast

text \<open>
  Claim C4, as the code has it.  A bind without waiting to a port that a member
  of the port's bucket already holds returns \<^verbatim>\<open>NX_PORT_UNAVAILABLE\<close>.  The memory
  afterwards is the memory before the call except for one field: the port
  recorded in the binding socket is the requested port.  So the table and every
  bucket list are unchanged, and the binding socket's \<open>bound_next\<close> is still null.
\<close>

theorem udp_bind_collision_no_wait:
  assumes wf: "port_table_ok cfg w (nx_udp_socket_ip_ptr s0) buckets"
    and sk: "load (udp_sockets w) socket_ptr = Inr s0"
    and nb: "nx_udp_socket_bound_next s0 = NX_NULL"
    and np: "nx_udp_socket_bind_in_progress s0 = NX_NULL"
    and port: "port \<noteq> NX_ANY_PORT"
    and held: "a \<in> set (buckets (udp_hash cfg port))" "udp_sockets w a = Some sa"
              "nx_udp_socket_port sa = port"
  shows "nx_udp_socket_bind cfg e w socket_ptr port 0 =
           Some (Inr (NX_PORT_UNAVAILABLE,
                      w\<lparr>udp_sockets := (udp_sockets w)
                           (socket_ptr \<mapsto> s0\<lparr>nx_udp_socket_port := port\<rparr>)\<rparr>,
                      [(TX_MUTEX_GET (nx_udp_socket_ip_ptr s0), w),
                       (TX_MUTEX_PUT (nx_udp_socket_ip_ptr s0),
                        w\<lparr>udp_sockets := (udp_sockets w)
                             (socket_ptr \<mapsto> s0\<lparr>nx_udp_socket_port := port\<rparr>)\<rparr>)]))
         \<and> port_table_ok cfg
              (w\<lparr>udp_sockets := (udp_sockets w)(socket_ptr \<mapsto> s0\<lparr>nx_udp_socket_port := port\<rparr>)\<rparr>)
              (nx_udp_socket_ip_ptr s0) buckets
         \<and> nx_udp_socket_bound_next (s0\<lparr>nx_udp_socket_port := port\<rparr>) = NX_NULL"
proof -
  let ?ipp = "nx_udp_socket_ip_ptr s0"
  let ?w1 = "w\<lparr>udp_sockets := (udp_sockets w)(socket_ptr \<mapsto> s0\<lparr>nx_udp_socket_port := port\<rparr>)\<rparr>"
  from wf obtain ip where ip: "load (ips w) ?ipp = Inr ip" by (rule port_table_ok_ip)
  have s0: "udp_sockets w socket_ptr = Some s0" using sk by (simp add: load_Inr)
  have ok: "port_table_ok cfg ?w1 ?ipp buckets"
    by (rule port_table_ok_frame[OF wf s0 nb]) simp_all
  have run: "nx_udp_socket_bind cfg e w socket_ptr port 0 =
               udp_bind_port cfg e w [(TX_MUTEX_GET ?ipp, w)] socket_ptr ?ipp port 0"
    by (rule udp_bind_known_port[OF sk ip nb np port])
  have "udp_bind_port cfg e w [(TX_MUTEX_GET ?ipp, w)] socket_ptr ?ipp port 0 =
          Some (Inr (NX_PORT_UNAVAILABLE, ?w1,
                     [(TX_MUTEX_GET ?ipp, w), (TX_MUTEX_PUT ?ipp, ?w1)]))"
    using wf sk nb refl[of ?w1]
  proof (cases rule: udp_bind_port_cases[where port=port and e=e
           and ?tr0.0="[(TX_MUTEX_GET ?ipp, w)]" and wait_option=0])
    case (empty ip)
    then show ?thesis using held(1) by simp
  next
    case (free ip)
    then show ?thesis using held by blast
  next
    case (taken ip owner so)
    then show ?thesis by simp
  qed
  with run ok nb show ?thesis by simp
qed

subsection \<open>Splicing a socket into a bucket\<close>

lemma bucket_members_distinct_buckets:
  assumes "bucket_ok cfg socks i hi xs" and "bucket_ok cfg socks j hj ys" and "i \<noteq> j"
    and "a \<in> set xs"
  shows "a \<notin> set ys"
proof
  assume b: "a \<in> set ys"
  from assms(4) obtain k where k: "k < length xs" "xs ! k = a" by (auto simp: in_set_conv_nth)
  from assms(1) have "bucket_cycle socks xs" by (simp add: bucket_ok_def)
  from this k(1) obtain s where "socks (xs ! k) = Some s" by (rule bucket_cycle_member)
  then have s: "socks a = Some s" using k(2) by simp
  have "udp_hash cfg (nx_udp_socket_port s) = i" using assms(1,4) s by (auto simp: bucket_ok_def)
  moreover have "udp_hash cfg (nx_udp_socket_port s) = j" using assms(2) b s by (auto simp: bucket_ok_def)
  ultimately show False using assms(3) by simp
qed

lemma bucket_cycle_single:
  assumes "sp \<noteq> NX_NULL" and "socks sp = Some s"
    and "nx_udp_socket_bound_next s = sp" and "nx_udp_socket_bound_previous s = sp"
  shows "bucket_cycle socks [sp]"
  using assms by (simp add: bucket_cycle_def)

lemma bucket_cycle_last:
  assumes c: "bucket_cycle socks xs" and ne: "xs \<noteq> []" and h: "socks (hd xs) = Some h"
  shows "nx_udp_socket_bound_previous h = last xs"
proof -
  have len: "0 < length xs" using ne by simp
  from c len obtain s where s: "socks (xs ! 0) = Some s"
    "nx_udp_socket_bound_previous s = (if (0::nat) = 0 then xs ! (length xs - 1) else xs ! (0 - 1))"
    by (rule bucket_cycle_member)
  then have "s = h" using h ne by (simp add: hd_conv_nth)
  then show ?thesis using s(2) ne by (simp add: last_conv_nth)
qed

lemma bucket_cycle_append:
  assumes c: "bucket_cycle socks xs" and ne: "xs \<noteq> []"
    and nm: "sp \<notin> set xs" and nz: "sp \<noteq> NX_NULL"
    and h: "socks (hd xs) = Some h" and t: "socks (last xs) = Some t"
    and sp: "socks' sp = Some s'"
      "nx_udp_socket_bound_next s' = hd xs" "nx_udp_socket_bound_previous s' = last xs"
    and hd: "socks' (hd xs) =
               Some ((if hd xs = last xs then t\<lparr>nx_udp_socket_bound_next := sp\<rparr> else h)
                       \<lparr>nx_udp_socket_bound_previous := sp\<rparr>)"
    and lst: "hd xs \<noteq> last xs \<Longrightarrow> socks' (last xs) = Some (t\<lparr>nx_udp_socket_bound_next := sp\<rparr>)"
    and other: "\<And>a. a \<noteq> hd xs \<Longrightarrow> a \<noteq> last xs \<Longrightarrow> a \<noteq> sp \<Longrightarrow> socks' a = socks a"
  shows "bucket_cycle socks' (xs @ [sp])"
proof -
  let ?n = "length xs"
  let ?ys = "xs @ [sp]"
  let ?next = "\<lambda>k. if Suc k = length ?ys then ?ys ! 0 else ?ys ! Suc k"
  let ?prev = "\<lambda>k. if k = 0 then ?ys ! (length ?ys - 1) else ?ys ! (k - 1)"
  have len: "0 < ?n" using ne by simp
  have d: "distinct xs" and nn: "NX_NULL \<notin> set xs" using c by (simp_all add: bucket_cycle_def)
  have hd0: "xs ! 0 = hd xs" using ne by (simp add: hd_conv_nth)
  have lastn: "xs ! (?n - 1) = last xs" using ne by (simp add: last_conv_nth)
  have idx: "xs ! i = xs ! j \<longleftrightarrow> i = j" if "i < ?n" "j < ?n" for i j
    using d that by (simp add: nth_eq_iff_index_eq)
  have "\<exists>s. socks' (?ys ! k) = Some s \<and> nx_udp_socket_bound_next s = ?next k
             \<and> nx_udp_socket_bound_previous s = ?prev k"
    if k: "k < length ?ys" for k
  proof (cases "k = ?n")
    case True
    have a: "?ys ! k = sp" using True by simp
    have n: "?next k = hd xs" using True len hd0 by (simp add: nth_append)
    have "?ys ! (k - 1) = xs ! (?n - 1)" using True len by (simp add: nth_append)
    then have p: "?prev k = last xs" using True len lastn by simp
    show ?thesis unfolding a n p using sp by blast
  next
    case False
    then have kn: "k < ?n" using k by simp
    from c kn obtain s where s: "socks (xs ! k) = Some s"
      "nx_udp_socket_bound_next s = (if Suc k = ?n then xs ! 0 else xs ! Suc k)"
      "nx_udp_socket_bound_previous s = (if k = 0 then xs ! (?n - 1) else xs ! (k - 1))"
      by (rule bucket_cycle_member)
    have a: "?ys ! k = xs ! k" using kn by (simp add: nth_append)
    have ksp: "xs ! k \<noteq> sp" using nm kn by (metis nth_mem)
    have n: "?next k = (if Suc k = ?n then sp else xs ! Suc k)" using kn by (simp add: nth_append)
    have km: "k - Suc 0 < ?n" using kn by linarith
    have p: "?prev k = (if k = 0 then sp else xs ! (k - 1))" using kn km by (simp add: nth_append)
    show ?thesis
    proof (cases "k = 0")
      case k0: True
      have kh: "xs ! k = hd xs" using k0 hd0 by simp
      have hs: "s = h" using s(1) h kh by simp
      have p0: "?prev k = sp" using p k0 by simp
      show ?thesis
      proof (cases "hd xs = last xs")
        case True
        have "xs ! 0 = xs ! (?n - 1)" using True hd0 lastn by simp
        then have "0 = ?n - 1" using idx[of 0 "?n - 1"] len by simp
        then have n1: "Suc k = ?n" using k0 len by linarith
        have n0: "?next k = sp" using n n1 by simp
        have "socks' (hd xs) = Some (t\<lparr>nx_udp_socket_bound_next := sp,
                                       nx_udp_socket_bound_previous := sp\<rparr>)"
          using hd True by simp
        then show ?thesis unfolding a kh n0 p0 by simp
      next
        case False
        have "Suc k \<noteq> ?n"
        proof
          assume "Suc k = ?n"
          then have "?n - 1 = 0" using k0 by simp
          then show False using False hd0 lastn by simp
        qed
        then have n0: "?next k = xs ! Suc k" using n by simp
        have nh: "nx_udp_socket_bound_next h = xs ! Suc k"
          using s(2) hs \<open>Suc k \<noteq> ?n\<close> by simp
        have "socks' (hd xs) = Some (h\<lparr>nx_udp_socket_bound_previous := sp\<rparr>)"
          using hd False by simp
        then show ?thesis unfolding a kh n0 p0 using nh by simp
      qed
    next
      case kpos: False
      have kh: "xs ! k \<noteq> hd xs" using idx[of k 0] kn len kpos hd0 by simp
      have p0: "?prev k = xs ! (k - 1)" using p kpos by simp
      have ps: "nx_udp_socket_bound_previous s = xs ! (k - 1)" using s(3) kpos by simp
      show ?thesis
      proof (cases "Suc k = ?n")
        case True
        have "k = ?n - 1" using True by simp
        then have kl: "xs ! k = last xs" using lastn by simp
        have ts: "s = t" using t s(1) kl by simp
        have n0: "?next k = sp" using n True by simp
        have "hd xs \<noteq> last xs" using kh kl by simp
        from lst[OF this] show ?thesis unfolding a kl n0 p0 using ps ts by simp
      next
        case False
        have "k \<noteq> ?n - 1" using False kn by linarith
        then have kl: "xs ! k \<noteq> last xs" using idx[of k "?n - 1"] kn len lastn by simp
        have n0: "?next k = xs ! Suc k" using n False by simp
        have ns: "nx_udp_socket_bound_next s = xs ! Suc k" using s(2) False by simp
        have "socks' (xs ! k) = Some s" using other[OF kh kl ksp] s(1) by simp
        then show ?thesis unfolding a n0 p0 using ns ps by simp
      qed
    qed
  qed
  moreover have "distinct (xs @ [sp])" using d nm by simp
  moreover have "NX_NULL \<notin> set (xs @ [sp])" using nn nz by auto
  ultimately show ?thesis unfolding bucket_cycle_alt by blast
qed

lemma bucket_cycle_cong:
  assumes "bucket_cycle socks xs" and "\<And>a. a \<in> set xs \<Longrightarrow> socks' a = socks a"
  shows "bucket_cycle socks' xs"
  using assms unfolding bucket_cycle_def by (auto simp: nth_mem)

lemma bucket_ok_cong:
  assumes "bucket_ok cfg socks i head xs" and "\<And>a. a \<in> set xs \<Longrightarrow> socks' a = socks a"
  shows "bucket_ok cfg socks' i head xs"
  using assms bucket_cycle_cong[of socks xs socks'] unfolding bucket_ok_def by auto

lemma bucket_cycle_in_heap:
  assumes "bucket_cycle socks xs" and "a \<in> set xs"
  obtains s where "socks a = Some s" "a \<noteq> NX_NULL"
proof -
  from assms(2) obtain k where k: "k < length xs" "xs ! k = a" by (auto simp: in_set_conv_nth)
  from assms(1) k(1) obtain s where "socks (xs ! k) = Some s" "xs ! k \<noteq> NX_NULL"
    by (rule bucket_cycle_member)
  then show thesis using k(2) that by simp
qed

lemma udp_bucket_first_ok:
  assumes wf: "port_table_ok cfg w1 ipp buckets"
    and s1: "udp_sockets w1 sp = Some s1" "sp \<noteq> NX_NULL" "nx_udp_socket_bound_next s1 = NX_NULL"
    and hash: "udp_hash cfg (nx_udp_socket_port s1) = idx"
    and emp: "buckets idx = []"
    and run: "udp_bucket_first w1 ipp idx sp = Inr w2"
  shows "port_table_ok cfg w2 ipp (buckets(idx := [sp])) \<and>
         (\<exists>s2 ip2. load (udp_sockets w2) sp = Inr s2 \<and> load (ips w2) ipp = Inr ip2 \<and>
            nx_udp_socket_port s2 = nx_udp_socket_port s1 \<and>
            nx_udp_socket_bound_next s2 = sp \<and> nx_udp_socket_bound_previous s2 = sp \<and>
            nx_ip_udp_port_table ip2 idx = sp)"
proof -
  from wf obtain ip where ip: "load (ips w1) ipp = Inr ip"
    and b: "\<And>i. i \<le> NX_UDP_PORT_TABLE_MASK cfg \<Longrightarrow>
              bucket_ok cfg (udp_sockets w1) i (nx_ip_udp_port_table ip i) (buckets i)"
    unfolding port_table_ok_def by blast
  let ?s2 = "s1\<lparr>nx_udp_socket_bound_next := sp, nx_udp_socket_bound_previous := sp\<rparr>"
  let ?ip2 = "ip\<lparr>nx_ip_udp_port_table := (nx_ip_udp_port_table ip)(idx := sp)\<rparr>"
  have ipn: "ipp \<noteq> NX_NULL" using ip by (simp add: load_Inr)
  have w2: "w2 = w1\<lparr>udp_sockets := (udp_sockets w1)(sp \<mapsto> ?s2), ips := (ips w1)(ipp \<mapsto> ?ip2)\<rparr>"
    using run s1 ip by (simp add: udp_bucket_first_def udp_update_def load_def split: if_splits)
  have ld: "load (udp_sockets w2) sp = Inr ?s2" "load (ips w2) ipp = Inr ?ip2"
    using s1(2) ipn by (simp_all add: w2 load_Inr)
  have "bucket_ok cfg (udp_sockets w2) i (nx_ip_udp_port_table ?ip2 i) ((buckets(idx := [sp])) i)"
    if i: "i \<le> NX_UDP_PORT_TABLE_MASK cfg" for i
  proof (cases "i = idx")
    case True
    have "bucket_cycle (udp_sockets w2) [sp]"
      by (rule bucket_cycle_single[OF s1(2), of _ ?s2]) (simp_all add: w2)
    then show ?thesis using True hash by (simp add: bucket_ok_def w2)
  next
    case False
    have nm: "sp \<notin> set (buckets i)" by (rule unbound_not_member[OF wf s1(1) s1(3) i])
    have "bucket_ok cfg (udp_sockets w2) i (nx_ip_udp_port_table ip i) (buckets i)"
      using bucket_ok_frame[OF b[OF i] nm, of ?s2] by (simp add: w2)
    then show ?thesis using False by simp
  qed
  then have "port_table_ok cfg w2 ipp (buckets(idx := [sp]))"
    unfolding port_table_ok_def using ld(2) by blast
  then show ?thesis using ld by auto
qed

lemma udp_bucket_append_ok:
  assumes wf: "port_table_ok cfg w1 ipp buckets"
    and s1: "udp_sockets w1 sp = Some s1" "sp \<noteq> NX_NULL" "nx_udp_socket_bound_next s1 = NX_NULL"
    and hash: "udp_hash cfg (nx_udp_socket_port s1) = idx"
    and ne: "buckets idx \<noteq> []"
    and run: "udp_bucket_append w1 (hd (buckets idx)) sp = Inr w2"
  shows "port_table_ok cfg w2 ipp (buckets(idx := buckets idx @ [sp])) \<and>
         (\<exists>s2. load (udp_sockets w2) sp = Inr s2 \<and>
            nx_udp_socket_port s2 = nx_udp_socket_port s1 \<and>
            nx_udp_socket_bound_next s2 = hd (buckets idx) \<and>
            nx_udp_socket_bound_previous s2 = last (buckets idx))"
proof -
  let ?xs = "buckets idx"
  let ?head = "hd ?xs"
  let ?tail = "last ?xs"
  let ?socks = "udp_sockets w1"
  have il: "idx \<le> NX_UDP_PORT_TABLE_MASK cfg" using hash udp_hash_le by metis
  from wf obtain ip where ip: "load (ips w1) ipp = Inr ip"
    and b: "\<And>i. i \<le> NX_UDP_PORT_TABLE_MASK cfg \<Longrightarrow>
              bucket_ok cfg ?socks i (nx_ip_udp_port_table ip i) (buckets i)"
    unfolding port_table_ok_def by blast
  have bi: "bucket_ok cfg ?socks idx (nx_ip_udp_port_table ip idx) ?xs" by (rule b[OF il])
  then have cyc: "bucket_cycle ?socks ?xs" by (simp add: bucket_ok_def)
  have nm: "sp \<notin> set ?xs" by (rule unbound_not_member[OF wf s1(1) s1(3) il])
  have hm: "?head \<in> set ?xs" and tm: "?tail \<in> set ?xs" using ne by simp_all
  from cyc hm obtain h where h: "?socks ?head = Some h" "?head \<noteq> NX_NULL"
    by (rule bucket_cycle_in_heap)
  from cyc tm obtain t where t: "?socks ?tail = Some t" "?tail \<noteq> NX_NULL"
    by (rule bucket_cycle_in_heap)
  have ph: "nx_udp_socket_bound_previous h = ?tail" by (rule bucket_cycle_last[OF cyc ne h(1)])
  have hsp: "?head \<noteq> sp" and tsp: "?tail \<noteq> sp" using nm hm tm by metis+
  let ?s2 = "s1\<lparr>nx_udp_socket_bound_next := ?head, nx_udp_socket_bound_previous := ?tail\<rparr>"
  let ?t2 = "t\<lparr>nx_udp_socket_bound_next := sp\<rparr>"
  let ?h2 = "(if ?head = ?tail then ?t2 else h)\<lparr>nx_udp_socket_bound_previous := sp\<rparr>"
  have w2: "w2 = w1\<lparr>udp_sockets := (?socks)(sp \<mapsto> ?s2, ?tail \<mapsto> ?t2, ?head \<mapsto> ?h2)\<rparr>"
  proof (cases "?head = ?tail")
    case True
    have "h = t" using h(1) t(1) True by simp
    then show ?thesis
      using run s1 h t ph hsp tsp True
      by (simp add: udp_bucket_append_def udp_update_def load_def)
  next
    case False
    then show ?thesis
      using run s1 h t ph hsp tsp
      by (simp add: udp_bucket_append_def udp_update_def load_def)
  qed
  let ?socks2 = "udp_sockets w2"
  have l_sp: "?socks2 sp = Some ?s2" using hsp tsp by (simp add: w2)
  have l_hd: "?socks2 ?head = Some ?h2" by (simp add: w2)
  have l_tl: "?head \<noteq> ?tail \<Longrightarrow> ?socks2 ?tail = Some ?t2" by (simp add: w2)
  have l_other: "\<And>a. a \<noteq> ?head \<Longrightarrow> a \<noteq> ?tail \<Longrightarrow> a \<noteq> sp \<Longrightarrow> ?socks2 a = ?socks a"
    by (simp add: w2)
  have ips2: "ips w2 = ips w1" by (simp add: w2)
  have cyc2: "bucket_cycle ?socks2 (?xs @ [sp])"
    by (rule bucket_cycle_append[OF cyc ne nm s1(2) h(1) t(1) l_sp _ _ l_hd l_tl l_other]) simp_all
  have port2: "\<exists>s. ?socks a = Some s \<and> nx_udp_socket_port s' = nx_udp_socket_port s"
    if "?socks2 a = Some s'" "a \<noteq> sp" for a s'
  proof (cases "a = ?head")
    case True
    then show ?thesis using that l_hd h t by (auto split: if_splits)
  next
    case nh: False
    show ?thesis
    proof (cases "a = ?tail")
      case True
      then show ?thesis using that nh l_tl t by auto
    next
      case False
      then show ?thesis using that nh l_other by auto
    qed
  qed
  have "bucket_ok cfg ?socks2 i (nx_ip_udp_port_table ip i) ((buckets(idx := ?xs @ [sp])) i)"
    if i: "i \<le> NX_UDP_PORT_TABLE_MASK cfg" for i
  proof (cases "i = idx")
    case True
    have hd2: "nx_ip_udp_port_table ip idx = hd (?xs @ [sp])" using bi ne by (simp add: bucket_ok_def)
    have "udp_hash cfg (nx_udp_socket_port s) = idx" if "a \<in> set (?xs @ [sp])" "?socks2 a = Some s" for a s
    proof (cases "a = sp")
      case True
      then have "s = ?s2" using that l_sp by simp
      then show ?thesis using hash by simp
    next
      case False
      with that have am: "a \<in> set ?xs" by simp
      from port2[OF that(2) False] obtain s0 where
        "?socks a = Some s0" "nx_udp_socket_port s = nx_udp_socket_port s0" by blast
      then show ?thesis using bi am by (auto simp: bucket_ok_def)
    qed
    then show ?thesis using True cyc2 hd2 unfolding bucket_ok_def by auto
  next
    case False
    have same: "?socks2 a = ?socks a" if "a \<in> set (buckets i)" for a
    proof -
      have "a \<notin> set ?xs" by (rule bucket_members_distinct_buckets[OF b[OF i] bi False that])
      then have "a \<noteq> ?head" "a \<noteq> ?tail" using hm tm by metis+
      moreover have "a \<noteq> sp" using unbound_not_member[OF wf s1(1) s1(3) i] that by metis
      ultimately show ?thesis by (rule l_other)
    qed
    have "bucket_ok cfg ?socks2 i (nx_ip_udp_port_table ip i) (buckets i)"
      by (rule bucket_ok_cong[OF b[OF i] same])
    then show ?thesis using False by simp
  qed
  then have "port_table_ok cfg w2 ipp (buckets(idx := ?xs @ [sp]))"
    unfolding port_table_ok_def ips2 using ip by blast
  moreover have "load (udp_sockets w2) sp = Inr ?s2" using l_sp s1(2) by (simp add: load_Inr)
  ultimately show ?thesis by simp
qed

subsection \<open>Taking a socket off a bucket\<close>

text \<open>
  A circular list can be read from any of its members; taking a member off it
  and joining its two neighbours leaves a circular list of the others.
\<close>

lemma bucket_cycle_rotate:
  assumes c: "bucket_cycle socks xs"
  shows "bucket_cycle socks (rotate m xs)"
proof -
  let ?n = "length xs"
  have "\<exists>s. socks (rotate m xs ! k) = Some s
        \<and> nx_udp_socket_bound_next s = rotate m xs ! ((k + 1) mod length (rotate m xs))
        \<and> nx_udp_socket_bound_previous s
            = rotate m xs ! ((k + length (rotate m xs) - 1) mod length (rotate m xs))"
    if k: "k < length (rotate m xs)" for k
  proof -
    have kn: "k < ?n" using k by simp
    have pos: "0 < ?n" using kn by linarith
    let ?j = "(m + k) mod ?n"
    have j: "?j < ?n" using pos by simp
    from c j obtain s where s: "socks (xs ! ?j) = Some s"
      "nx_udp_socket_bound_next s = xs ! ((?j + 1) mod ?n)"
      "nx_udp_socket_bound_previous s = xs ! ((?j + ?n - 1) mod ?n)"
      unfolding bucket_cycle_def by blast
    have a: "rotate m xs ! k = xs ! ?j" using kn by (simp add: nth_rotate)
    have k1: "(k + 1) mod ?n < ?n" and k2: "(k + ?n - 1) mod ?n < ?n" using pos by simp_all
    have n1: "rotate m xs ! ((k + 1) mod ?n) = xs ! ((m + (k + 1) mod ?n) mod ?n)"
      using k1 by (simp add: nth_rotate)
    have n2: "rotate m xs ! ((k + ?n - 1) mod ?n) = xs ! ((m + (k + ?n - 1) mod ?n) mod ?n)"
      using k2 by (simp add: nth_rotate)
    have e1: "(?j + 1) mod ?n = (m + (k + 1) mod ?n) mod ?n"
      by (metis add.assoc mod_add_left_eq mod_add_right_eq)
    have a1: "?j + ?n - 1 = ?j + (?n - 1)" using pos by linarith
    have a2: "m + k + (?n - 1) = m + (k + ?n - 1)" using pos by linarith
    have "(?j + ?n - 1) mod ?n = (?j + (?n - 1)) mod ?n" by (simp only: a1)
    also have "\<dots> = (m + k + (?n - 1)) mod ?n" by (simp add: mod_add_left_eq)
    also have "\<dots> = (m + (k + ?n - 1)) mod ?n" by (simp only: a2)
    also have "\<dots> = (m + (k + ?n - 1) mod ?n) mod ?n" by (simp add: mod_add_right_eq)
    finally have e2: "(?j + ?n - 1) mod ?n = (m + (k + ?n - 1) mod ?n) mod ?n" .
    show ?thesis
      using s a n1 n2 e1 e2 by simp
  qed
  moreover have "distinct (rotate m xs)" "NX_NULL \<notin> set (rotate m xs)"
    using c by (simp_all add: bucket_cycle_def)
  ultimately show ?thesis unfolding bucket_cycle_def by blast
qed

lemma bucket_cycle_remove_hd:
  assumes c: "bucket_cycle socks (a # zs)" and ne: "zs \<noteq> []"
    and upd: "\<And>z s. z \<in> set zs \<Longrightarrow> socks z = Some s \<Longrightarrow>
               \<exists>s'. socks' z = Some s' \<and>
                    nx_udp_socket_bound_next s'
                      = (if z = last zs then hd zs else nx_udp_socket_bound_next s) \<and>
                    nx_udp_socket_bound_previous s'
                      = (if z = hd zs then last zs else nx_udp_socket_bound_previous s)"
  shows "bucket_cycle socks' zs"
proof -
  let ?n = "length zs"
  have len: "0 < ?n" using ne by simp
  have d: "distinct zs" and nn: "NX_NULL \<notin> set zs" using c by (simp_all add: bucket_cycle_def)
  have hd0: "hd zs = zs ! 0" using ne by (simp add: hd_conv_nth)
  have lastn: "last zs = zs ! (?n - 1)" using ne by (simp add: last_conv_nth)
  have idx: "zs ! i = zs ! j \<longleftrightarrow> i = j" if "i < ?n" "j < ?n" for i j
    using d that by (simp add: nth_eq_iff_index_eq)
  have "\<exists>s. socks' (zs ! k) = Some s
        \<and> nx_udp_socket_bound_next s = (if Suc k = ?n then zs ! 0 else zs ! Suc k)
        \<and> nx_udp_socket_bound_previous s = (if k = 0 then zs ! (?n - 1) else zs ! (k - 1))"
    if k: "k < ?n" for k
  proof -
    have "Suc k < length (a # zs)" using k by simp
    from bucket_cycle_member[OF c this] obtain s where s: "socks ((a # zs) ! Suc k) = Some s"
      "nx_udp_socket_bound_next s
         = (if Suc (Suc k) = length (a # zs) then (a # zs) ! 0 else (a # zs) ! Suc (Suc k))"
      "nx_udp_socket_bound_previous s
         = (if Suc k = 0 then (a # zs) ! (length (a # zs) - 1) else (a # zs) ! (Suc k - 1))"
      by blast
    have s1: "socks (zs ! k) = Some s" using s(1) by simp
    have s2: "Suc k \<noteq> ?n \<Longrightarrow> nx_udp_socket_bound_next s = zs ! Suc k" using s(2) by simp
    have s3: "k \<noteq> 0 \<Longrightarrow> nx_udp_socket_bound_previous s = zs ! (k - 1)"
      using s(3) by (cases k) simp_all
    from upd[OF nth_mem[OF k] s1] obtain s' where s': "socks' (zs ! k) = Some s'"
      "nx_udp_socket_bound_next s'
         = (if zs ! k = last zs then hd zs else nx_udp_socket_bound_next s)"
      "nx_udp_socket_bound_previous s'
         = (if zs ! k = hd zs then last zs else nx_udp_socket_bound_previous s)"
      by blast
    have l: "zs ! k = last zs \<longleftrightarrow> Suc k = ?n"
      unfolding lastn using idx[OF k, of "?n - 1"] len by auto
    have h: "zs ! k = hd zs \<longleftrightarrow> k = 0"
      unfolding hd0 using idx[OF k, of 0] len by auto
    show ?thesis using s' s2 s3 l h hd0 lastn by auto
  qed
  then show ?thesis using d nn unfolding bucket_cycle_alt by blast
qed

lemma bucket_cycle_neighbours:
  assumes c: "bucket_cycle socks xs" and a: "a \<in> set xs" and sa: "socks a = Some sa"
  shows "nx_udp_socket_bound_next sa \<in> set xs" "nx_udp_socket_bound_previous sa \<in> set xs"
    "nx_udp_socket_bound_next sa = a \<longleftrightarrow> xs = [a]"
    "nx_udp_socket_bound_previous sa = a \<longleftrightarrow> xs = [a]"
proof -
  let ?n = "length xs"
  from a obtain k where k: "k < ?n" "xs ! k = a" by (auto simp: in_set_conv_nth)
  have d: "distinct xs" using c by (simp add: bucket_cycle_def)
  have idx: "xs ! i = xs ! j \<longleftrightarrow> i = j" if "i < ?n" "j < ?n" for i j
    using d that by (simp add: nth_eq_iff_index_eq)
  from c k(1) obtain s where s: "socks (xs ! k) = Some s"
    "nx_udp_socket_bound_next s = (if Suc k = ?n then xs ! 0 else xs ! Suc k)"
    "nx_udp_socket_bound_previous s = (if k = 0 then xs ! (?n - 1) else xs ! (k - 1))"
    by (rule bucket_cycle_member)
  have ss: "s = sa" using s(1) k(2) sa by simp
  have npos: "0 < ?n" using k(1) by linarith
  have one: "xs = [a] \<longleftrightarrow> ?n = 1"
  proof
    assume "?n = 1"
    then obtain x where "xs = [x]" by (cases xs) simp_all
    then show "xs = [a]" using a by simp
  qed simp
  show "nx_udp_socket_bound_next sa \<in> set xs" using s(2) k(1) ss by (auto intro: nth_mem)
  show "nx_udp_socket_bound_previous sa \<in> set xs"
  proof (cases "k = 0")
    case True
    have "?n - 1 < ?n" using k(1) by linarith
    then show ?thesis using s(3) ss True by (auto intro: nth_mem)
  next
    case False
    have "k - 1 < ?n" using k(1) by linarith
    then show ?thesis using s(3) ss False by (auto intro: nth_mem)
  qed
  show "nx_udp_socket_bound_next sa = a \<longleftrightarrow> xs = [a]"
  proof (cases "Suc k = ?n")
    case True
    have pos: "0 < ?n" using k(1) by linarith
    have "xs ! 0 = xs ! k \<longleftrightarrow> 0 = k" by (rule idx[OF pos k(1)])
    then show ?thesis unfolding one using s(2) ss True k(2) by auto
  next
    case False
    then have lt: "Suc k < ?n" using k(1) by simp
    have "xs ! Suc k \<noteq> xs ! k" using idx[OF lt k(1)] by simp
    then show ?thesis unfolding one using s(2) ss False k by auto
  qed
  show "nx_udp_socket_bound_previous sa = a \<longleftrightarrow> xs = [a]"
  proof (cases "k = 0")
    case True
    have lt: "?n - 1 < ?n" using k(1) by linarith
    have "xs ! (?n - 1) = xs ! k \<longleftrightarrow> ?n - 1 = k" using idx[OF lt k(1)] by simp
    moreover have "?n - 1 = k \<longleftrightarrow> ?n = 1" using True npos by arith
    moreover have "nx_udp_socket_bound_previous sa = xs ! (?n - 1)" using s(3) ss True by simp
    ultimately show ?thesis unfolding one using k(2) by simp
  next
    case False
    have lt: "k - 1 < ?n" using k(1) by linarith
    have "xs ! (k - 1) \<noteq> xs ! k" using idx[OF lt k(1)] False by simp
    then show ?thesis unfolding one using s(3) ss False k npos by auto
  qed
qed

lemma bucket_cycle_remove:
  assumes c: "bucket_cycle socks xs" and a: "a \<in> set xs" and sa: "socks a = Some sa"
    and two: "nx_udp_socket_bound_next sa \<noteq> a"
    and upd: "\<And>z s. z \<in> set xs \<Longrightarrow> z \<noteq> a \<Longrightarrow> socks z = Some s \<Longrightarrow>
               \<exists>s'. socks' z = Some s' \<and>
                    nx_udp_socket_bound_next s'
                      = (if z = nx_udp_socket_bound_previous sa then nx_udp_socket_bound_next sa
                         else nx_udp_socket_bound_next s) \<and>
                    nx_udp_socket_bound_previous s'
                      = (if z = nx_udp_socket_bound_next sa then nx_udp_socket_bound_previous sa
                         else nx_udp_socket_bound_previous s)"
  shows "bucket_cycle socks' (remove1 a xs)"
proof -
  from a obtain us vs where xs: "xs = us @ a # vs" by (auto simp: in_set_conv_decomp)
  have d: "distinct xs" using c by (simp add: bucket_cycle_def)
  have au: "a \<notin> set us" and av: "a \<notin> set vs" using d xs by simp_all
  define zs where "zs = vs @ us"
  have r: "rotate (length us) xs = a # zs" unfolding xs zs_def by (simp add: rotate_append)
  have c1: "bucket_cycle socks (a # zs)" using bucket_cycle_rotate[OF c, of "length us"] r by simp
  have ne: "zs \<noteq> []"
  proof
    assume "zs = []"
    then have "xs = [a]" using xs zs_def by simp
    then show False using bucket_cycle_neighbours(3)[OF c a sa] two by simp
  qed
  have "0 < length (a # zs)" by simp
  from bucket_cycle_member[OF c1 this] obtain s0 where s0: "socks ((a # zs) ! 0) = Some s0"
    "nx_udp_socket_bound_next s0
       = (if Suc 0 = length (a # zs) then (a # zs) ! 0 else (a # zs) ! Suc 0)"
    "nx_udp_socket_bound_previous s0
       = (if (0::nat) = 0 then (a # zs) ! (length (a # zs) - 1) else (a # zs) ! (0 - 1))"
    by blast
  have e: "s0 = sa" using s0(1) sa by simp
  have len: "0 < length zs" using ne by blast
  have nx: "nx_udp_socket_bound_next sa = hd zs"
    using s0(2) e ne len by (simp add: hd_conv_nth)
  have "(a # zs) ! length zs = zs ! (length zs - 1)" using len by (cases "length zs") simp_all
  then have pv: "nx_udp_socket_bound_previous sa = last zs"
    using s0(3) e ne by (simp add: last_conv_nth)
  have c2: "bucket_cycle socks' zs"
  proof (rule bucket_cycle_remove_hd[OF c1 ne])
    fix z s assume z: "z \<in> set zs" "socks z = Some s"
    have "z \<in> set xs" "z \<noteq> a" using z(1) au av xs zs_def by auto
    from upd[OF this z(2)]
    show "\<exists>s'. socks' z = Some s' \<and>
                    nx_udp_socket_bound_next s'
                      = (if z = last zs then hd zs else nx_udp_socket_bound_next s) \<and>
                    nx_udp_socket_bound_previous s'
                      = (if z = hd zs then last zs else nx_udp_socket_bound_previous s)"
      unfolding nx pv .
  qed
  have "rotate (length vs) zs = us @ vs" unfolding zs_def by (rule rotate_append)
  then have "bucket_cycle socks' (us @ vs)" using bucket_cycle_rotate[OF c2, of "length vs"] by simp
  moreover have "remove1 a xs = us @ vs" using xs au by (simp add: remove1_append)
  ultimately show ?thesis by simp
qed

lemma remove1_hd:
  assumes "xs \<noteq> []" and "remove1 a xs \<noteq> []"
  shows "hd (remove1 a xs) = (if hd xs = a then hd (tl xs) else hd xs)"
  using assms by (cases xs) auto

lemma bucket_cycle_second:
  assumes c: "bucket_cycle socks xs" and ne: "xs \<noteq> []" and h: "socks (hd xs) = Some s"
    and two: "xs \<noteq> [hd xs]"
  shows "nx_udp_socket_bound_next s = hd (tl xs)"
proof -
  obtain x ys where xs: "xs = x # ys" using ne by (cases xs) simp_all
  have ys: "ys \<noteq> []" using two xs by simp
  have "0 < length xs" using ne by simp
  from bucket_cycle_member[OF c this] obtain s0 where s0: "socks (xs ! 0) = Some s0"
    "nx_udp_socket_bound_next s0 = (if Suc 0 = length xs then xs ! 0 else xs ! Suc 0)"
    by blast
  have "s0 = s" using s0(1) h xs by simp
  then show ?thesis using s0(2) xs ys by (simp add: hd_conv_nth)
qed

lemma udp_bucket_unlink_ok:
  assumes wf: "port_table_ok cfg w ipp buckets"
    and il: "idx \<le> NX_UDP_PORT_TABLE_MASK cfg"
    and m: "a \<in> set (buckets idx)"
  shows "\<exists>w1. udp_bucket_unlink w ipp idx a = Inr w1 \<and>
           port_table_ok cfg w1 ipp (buckets(idx := remove1 a (buckets idx))) \<and>
           threads w1 = threads w \<and>
           (\<forall>z. z \<notin> set (buckets idx) \<longrightarrow> udp_sockets w1 z = udp_sockets w z)"
proof -
  let ?xs = "buckets idx"
  let ?socks = "udp_sockets w"
  from wf obtain ip where ip: "load (ips w) ipp = Inr ip"
    and b: "\<And>i. i \<le> NX_UDP_PORT_TABLE_MASK cfg \<Longrightarrow>
              bucket_ok cfg ?socks i (nx_ip_udp_port_table ip i) (buckets i)"
    unfolding port_table_ok_def by blast
  have ipv: "ipp \<noteq> NX_NULL" "ips w ipp = Some ip" using ip by (simp_all add: load_Inr)
  have bi: "bucket_ok cfg ?socks idx (nx_ip_udp_port_table ip idx) ?xs" by (rule b[OF il])
  then have cyc: "bucket_cycle ?socks ?xs" by (simp add: bucket_ok_def)
  have ne: "?xs \<noteq> []" using m by auto
  have hd: "nx_ip_udp_port_table ip idx = hd ?xs" using bi ne by (simp add: bucket_ok_def)
  have hs: "\<And>z s. z \<in> set ?xs \<Longrightarrow> ?socks z = Some s \<Longrightarrow> udp_hash cfg (nx_udp_socket_port s) = idx"
    using bi by (auto simp: bucket_ok_def)
  have d: "distinct ?xs" using cyc by (simp add: bucket_cycle_def)
  from cyc m obtain sa where sa: "?socks a = Some sa" "a \<noteq> NX_NULL"
    by (rule bucket_cycle_in_heap)
  note nb = bucket_cycle_neighbours[OF cyc m sa(1)]
  let ?nxt = "nx_udp_socket_bound_next sa"
  let ?prv = "nx_udp_socket_bound_previous sa"
  let ?sa' = "sa\<lparr>nx_udp_socket_bound_next := NX_NULL\<rparr>"
  have other: "bucket_ok cfg socks' i (nx_ip_udp_port_table ip i) (buckets i)"
    if i: "i \<le> NX_UDP_PORT_TABLE_MASK cfg" "i \<noteq> idx"
      and same: "\<And>z. z \<notin> set ?xs \<Longrightarrow> socks' z = ?socks z" for i socks'
  proof (rule bucket_ok_cong[OF b[OF i(1)]])
    fix z assume "z \<in> set (buckets i)"
    then have "z \<notin> set ?xs" by (rule bucket_members_distinct_buckets[OF b[OF i(1)] bi i(2)])
    then show "socks' z = ?socks z" by (rule same)
  qed
  show ?thesis
  proof (cases "?nxt = a")
    case True
    then have xs: "?xs = [a]" using nb(3) by simp
    let ?ip1 = "ip\<lparr>nx_ip_udp_port_table := (nx_ip_udp_port_table ip)(idx := NX_NULL)\<rparr>"
    let ?w1 = "w\<lparr>ips := (ips w)(ipp \<mapsto> ?ip1), udp_sockets := (?socks)(a \<mapsto> ?sa')\<rparr>"
    have run: "udp_bucket_unlink w ipp idx a = Inr ?w1"
      using sa ipv True by (simp add: udp_bucket_unlink_def udp_update_def load_def)
    have ld: "load (ips ?w1) ipp = Inr ?ip1" using ipv by (simp add: load_Inr)
    have "bucket_ok cfg (udp_sockets ?w1) i (nx_ip_udp_port_table ?ip1 i)
            ((buckets(idx := remove1 a ?xs)) i)"
      if i: "i \<le> NX_UDP_PORT_TABLE_MASK cfg" for i
    proof (cases "i = idx")
      case True
      then show ?thesis by (simp add: xs bucket_ok_def bucket_cycle_def)
    next
      case False
      have "bucket_ok cfg (udp_sockets ?w1) i (nx_ip_udp_port_table ip i) (buckets i)"
        by (rule other[OF i False]) (simp add: xs)
      then show ?thesis using False by simp
    qed
    then have "port_table_ok cfg ?w1 ipp (buckets(idx := remove1 a ?xs))"
      unfolding port_table_ok_def using ld by blast
    moreover have "threads ?w1 = threads w" by simp
    moreover have "\<forall>z. z \<notin> set ?xs \<longrightarrow> udp_sockets ?w1 z = ?socks z" by (simp add: xs)
    ultimately show ?thesis using run by blast
  next
    case False
    have x1: "?xs \<noteq> [a]" using nb(3) False by simp
    have pa: "?prv \<noteq> a" using nb(4) x1 by simp
    from cyc nb(1) obtain sn where sn: "?socks ?nxt = Some sn" "?nxt \<noteq> NX_NULL"
      by (rule bucket_cycle_in_heap)
    from cyc nb(2) obtain sp where sp: "?socks ?prv = Some sp" "?prv \<noteq> NX_NULL"
      by (rule bucket_cycle_in_heap)
    let ?sn' = "sn\<lparr>nx_udp_socket_bound_previous := ?prv\<rparr>"
    let ?sp' = "(if ?prv = ?nxt then ?sn' else sp)\<lparr>nx_udp_socket_bound_next := ?nxt\<rparr>"
    let ?socks1 = "(?socks)(?nxt \<mapsto> ?sn', ?prv \<mapsto> ?sp', a \<mapsto> ?sa')"
    let ?ip1 = "if nx_ip_udp_port_table ip idx = a
                then ip\<lparr>nx_ip_udp_port_table := (nx_ip_udp_port_table ip)(idx := ?nxt)\<rparr>
                else ip"
    have "\<exists>w1. udp_bucket_unlink w ipp idx a = Inr w1 \<and> udp_sockets w1 = ?socks1 \<and>
            load (ips w1) ipp = Inr ?ip1 \<and> threads w1 = threads w"
    proof (cases "?prv = ?nxt")
      case True
      have "sp = sn" using sp(1) sn(1) True by simp
      then show ?thesis
        using sa sn sp ipv False pa True
        by (simp add: udp_bucket_unlink_def udp_update_def load_def)
    next
      case pn: False
      show ?thesis
        using sa sn sp ipv False pa pn
        by (simp add: udp_bucket_unlink_def udp_update_def load_def)
    qed
    then obtain w1 where run: "udp_bucket_unlink w ipp idx a = Inr w1"
      and u1: "udp_sockets w1 = ?socks1" and i1: "load (ips w1) ipp = Inr ?ip1"
      and t1: "threads w1 = threads w" by blast
    have l_prv: "?socks1 ?prv = Some ?sp'" using pa by simp
    have l_nxt: "?prv \<noteq> ?nxt \<Longrightarrow> ?socks1 ?nxt = Some ?sn'" using False by simp
    have l_other: "\<And>z. z \<noteq> ?prv \<Longrightarrow> z \<noteq> ?nxt \<Longrightarrow> z \<noteq> a \<Longrightarrow> ?socks1 z = ?socks z"
      by simp
    have upd: "\<exists>s'. ?socks1 z = Some s' \<and>
                 nx_udp_socket_bound_next s' = (if z = ?prv then ?nxt else nx_udp_socket_bound_next s) \<and>
                 nx_udp_socket_bound_previous s'
                   = (if z = ?nxt then ?prv else nx_udp_socket_bound_previous s) \<and>
                 nx_udp_socket_port s' = nx_udp_socket_port s"
      if z: "z \<in> set ?xs" "z \<noteq> a" "?socks z = Some s" for z s
    proof (cases "z = ?prv")
      case True
      have s: "s = sp" using z(3) sp(1) True by simp
      show ?thesis
      proof (cases "?prv = ?nxt")
        case pn: True
        have "sp = sn" using sp(1) sn(1) pn by simp
        then show ?thesis unfolding True l_prv using s pn by simp
      next
        case pn: False
        then show ?thesis unfolding True l_prv using s by simp
      qed
    next
      case zp: False
      show ?thesis
      proof (cases "z = ?nxt")
        case True
        have s: "s = sn" using z(3) sn(1) True by simp
        have "?prv \<noteq> ?nxt" using zp True by simp
        from l_nxt[OF this] show ?thesis using True zp s by simp
      next
        case False
        then show ?thesis using l_other[OF zp False z(2)] z(3) zp by simp
      qed
    qed
    have cyc1: "bucket_cycle ?socks1 (remove1 a ?xs)"
    proof (rule bucket_cycle_remove[OF cyc m sa(1) False])
      fix z s assume "z \<in> set ?xs" "z \<noteq> a" "?socks z = Some s"
      from upd[OF this]
      show "\<exists>s'. ?socks1 z = Some s' \<and>
                 nx_udp_socket_bound_next s' = (if z = ?prv then ?nxt else nx_udp_socket_bound_next s) \<and>
                 nx_udp_socket_bound_previous s'
                   = (if z = ?nxt then ?prv else nx_udp_socket_bound_previous s)"
        by blast
    qed
    have rne: "remove1 a ?xs \<noteq> []"
    proof
      assume e: "remove1 a ?xs = []"
      have "length (remove1 a ?xs) = length ?xs - 1" using m by (simp add: length_remove1)
      then have "length ?xs = 1" using e ne by (cases ?xs) simp_all
      then obtain x where "?xs = [x]" by (cases ?xs) simp_all
      then show False using m x1 by simp
    qed
    have hd1: "nx_ip_udp_port_table ?ip1 idx = hd (remove1 a ?xs)"
    proof (cases "hd ?xs = a")
      case True
      have "?socks (hd ?xs) = Some sa" using True sa(1) by simp
      from bucket_cycle_second[OF cyc ne this] x1 True
      have "?nxt = hd (tl ?xs)" by simp
      then show ?thesis using True hd remove1_hd[OF ne rne] by simp
    next
      case False
      then show ?thesis using hd remove1_hd[OF ne rne] by simp
    qed
    have hash1: "udp_hash cfg (nx_udp_socket_port s') = idx"
      if z: "z \<in> set (remove1 a ?xs)" "?socks1 z = Some s'" for z s'
    proof -
      have zx: "z \<in> set ?xs" "z \<noteq> a" using z(1) d by (auto simp: set_remove1_eq)
      from cyc zx(1) obtain s where s: "?socks z = Some s" by (rule bucket_cycle_in_heap)
      from upd[OF zx s] z(2) have "nx_udp_socket_port s' = nx_udp_socket_port s" by auto
      then show ?thesis using hs[OF zx(1) s] by simp
    qed
    have "bucket_ok cfg (udp_sockets w1) i (nx_ip_udp_port_table ?ip1 i)
            ((buckets(idx := remove1 a ?xs)) i)"
      if i: "i \<le> NX_UDP_PORT_TABLE_MASK cfg" for i
    proof (cases "i = idx")
      case True
      show ?thesis unfolding True u1 bucket_ok_def using cyc1 rne hd1 hash1 by auto
    next
      case ni: False
      have "bucket_ok cfg ?socks1 i (nx_ip_udp_port_table ip i) (buckets i)"
      proof (rule other[OF i ni])
        fix z assume "z \<notin> set ?xs"
        then have "z \<noteq> ?prv" "z \<noteq> ?nxt" "z \<noteq> a" using nb(1,2) m by metis+
        then show "?socks1 z = ?socks z" by (rule l_other)
      qed
      moreover have "nx_ip_udp_port_table ?ip1 i = nx_ip_udp_port_table ip i" using ni by simp
      ultimately show ?thesis unfolding u1 using ni by simp
    qed
    then have "port_table_ok cfg w1 ipp (buckets(idx := remove1 a ?xs))"
      unfolding port_table_ok_def using i1 by blast
    moreover have "\<forall>z. z \<notin> set ?xs \<longrightarrow> udp_sockets w1 z = ?socks z"
    proof (intro allI impI)
      fix z assume "z \<notin> set ?xs"
      then have "z \<noteq> ?prv" "z \<noteq> ?nxt" "z \<noteq> a" using nb(1,2) m by metis+
      then show "udp_sockets w1 z = ?socks z" unfolding u1 by (rule l_other)
    qed
    ultimately show ?thesis using run t1 by blast
  qed
qed

subsection \<open>A bind that succeeds\<close>

text \<open>
  When the owner hands its port to a socket that waits for it, the table stays
  well formed: the owner is gone from the bucket and the socket is at its end.
\<close>

lemma thread_update_result:
  assumes "thread_update p f w = Inr w'"
  shows "\<exists>t. load (threads w) p = Inr t \<and> w' = w\<lparr>threads := (threads w)(p \<mapsto> f t)\<rparr>"
  using assms by (auto simp: thread_update_def split: sum.splits)

lemma udp_unbind_handover_ok:
  assumes wt: "waiting_for_port cfg w ipp buckets owner sp th p"
    and run: "udp_unbind_handover cfg w owner = Inr w'"
    and idx: "idx = udp_hash cfg p"
    and bf: "before = buckets(idx := remove1 owner (buckets idx))"
  shows "\<exists>s' ip' t'. load (udp_sockets w') sp = Inr s' \<and> load (ips w') ipp = Inr ip' \<and>
           load (threads w') th = Inr t' \<and> tx_thread_suspend_status t' = NX_SUCCESS \<and>
           nx_udp_socket_port s' = p \<and>
           port_table_ok cfg w' ipp (before(idx := before idx @ [sp])) \<and>
           (before idx = [] \<longrightarrow>
              nx_ip_udp_port_table ip' idx = sp \<and>
              nx_udp_socket_bound_next s' = sp \<and> nx_udp_socket_bound_previous s' = sp)"
proof -
  from wt obtain so sb t where so: "load (udp_sockets w) owner = Inr so"
    and sb: "load (udp_sockets w) sp = Inr sb" and t: "load (threads w) th = Inr t"
    and wf: "port_table_ok cfg w ipp buckets" and oi: "nx_udp_socket_ip_ptr so = ipp"
    and m: "owner \<in> set (buckets idx)"
    and po: "nx_udp_socket_port so = p" and pb: "nx_udp_socket_port sb = p"
    and nb: "nx_udp_socket_bound_next sb = NX_NULL"
    and sl: "nx_udp_socket_bind_suspension_list so = th"
    and cb: "tx_thread_suspend_control_block t = sp"
    unfolding waiting_for_port_def idx by blast
  have il: "idx \<le> NX_UDP_PORT_TABLE_MASK cfg" unfolding idx by (rule udp_hash_le)
  have sbv: "udp_sockets w sp = Some sb" "sp \<noteq> NX_NULL" using sb by (simp_all add: load_Inr)
  from udp_bucket_unlink_ok[OF wf il m] obtain wa where
    ua: "udp_bucket_unlink w ipp idx owner = Inr wa"
    and oka: "port_table_ok cfg wa ipp before"
    and ta: "threads wa = threads w"
    and fa: "\<forall>z. z \<notin> set (buckets idx) \<longrightarrow> udp_sockets wa z = udp_sockets w z"
    unfolding bf by blast
  have "sp \<notin> set (buckets idx)" by (rule unbound_not_member[OF wf sbv(1) nb il])
  then have sa: "udp_sockets wa sp = Some sb" using fa sbv(1) by simp
  let ?sb1 = "sb\<lparr>nx_udp_socket_bind_in_progress := NX_NULL\<rparr>"
  let ?wb = "wa\<lparr>udp_sockets := (udp_sockets wa)(sp \<mapsto> ?sb1)\<rparr>"
  have okb: "port_table_ok cfg ?wb ipp before"
    by (rule port_table_ok_frame[OF oka sa nb]) simp_all
  from okb obtain ipb where ipb: "load (ips ?wb) ipp = Inr ipb"
    and bb: "bucket_ok cfg (udp_sockets ?wb) idx (nx_ip_udp_port_table ipb idx) (before idx)"
    unfolding port_table_ok_def using il by blast
  have s1: "udp_sockets ?wb sp = Some ?sb1" "nx_udp_socket_bound_next ?sb1 = NX_NULL"
    "udp_hash cfg (nx_udp_socket_port ?sb1) = idx"
    using nb pb idx by simp_all
  have ub: "udp_update sp (\<lambda>s. s\<lparr>nx_udp_socket_bind_in_progress := NX_NULL\<rparr>) wa = Inr ?wb"
    using sa sbv(2) by (simp add: udp_update_def load_def)
  have tl: "load (threads wa) th = Inr t" using t ta by simp
  let ?splice = "if nx_ip_udp_port_table ipb idx \<noteq> NX_NULL
                 then udp_bucket_append ?wb (nx_ip_udp_port_table ipb idx) sp
                 else udp_bucket_first ?wb ipp idx sp"
  let ?f = "\<lambda>t. t\<lparr>tx_thread_suspend_cleanup := NO_CLEANUP, tx_thread_suspend_status := NX_SUCCESS\<rparr>"
  have "udp_unbind_handover cfg w owner =
          (case ?splice of Inl f \<Rightarrow> Inl f | Inr wc \<Rightarrow> thread_update th ?f wc)"
    unfolding udp_unbind_handover_def Let_def
    by (simp only: so sum.case oi po sl idx[symmetric] ua tl cb ub ipb)
  with run obtain wc where sp: "?splice = Inr wc" and tu: "thread_update th ?f wc = Inr w'"
    by (auto split: sum.splits)
  from thread_update_result[OF tu] obtain tc where tc: "load (threads wc) th = Inr tc"
    and w': "w' = wc\<lparr>threads := (threads wc)(th \<mapsto> ?f tc)\<rparr>" by blast
  have thn: "th \<noteq> NX_NULL" using t by (simp add: load_Inr)
  have r1: "udp_sockets w' = udp_sockets wc" "ips w' = ips wc" by (simp_all add: w')
  have r2: "load (threads w') th = Inr (?f tc)" using thn by (simp add: w' load_Inr)
  have pt: "port_table_ok cfg w' ipp bk" if "port_table_ok cfg wc ipp bk" for bk
    using that unfolding port_table_ok_def r1 .
  show ?thesis
  proof (cases "before idx = []")
    case True
    then have "nx_ip_udp_port_table ipb idx = NX_NULL" using bb by (simp add: bucket_ok_def)
    then have f: "udp_bucket_first ?wb ipp idx sp = Inr wc" using sp by simp
    from udp_bucket_first_ok[OF okb s1(1) sbv(2) s1(2) s1(3) True f]
    obtain s2 ip2 where "port_table_ok cfg wc ipp (before(idx := [sp]))"
      "load (udp_sockets wc) sp = Inr s2" "load (ips wc) ipp = Inr ip2"
      "nx_udp_socket_port s2 = nx_udp_socket_port ?sb1"
      "nx_udp_socket_bound_next s2 = sp" "nx_udp_socket_bound_previous s2 = sp"
      "nx_ip_udp_port_table ip2 idx = sp" by blast
    then show ?thesis using pt r1 r2 pb True by auto
  next
    case False
    have cyc: "bucket_cycle (udp_sockets ?wb) (before idx)" using bb by (simp add: bucket_ok_def)
    have "hd (before idx) \<in> set (before idx)" using False by simp
    moreover have "NX_NULL \<notin> set (before idx)" using cyc by (simp add: bucket_cycle_def)
    ultimately have "hd (before idx) \<noteq> NX_NULL" by metis
    moreover have h: "nx_ip_udp_port_table ipb idx = hd (before idx)"
      using bb False by (simp add: bucket_ok_def)
    ultimately have f: "udp_bucket_append ?wb (hd (before idx)) sp = Inr wc" using sp by simp
    from udp_bucket_append_ok[OF okb s1(1) sbv(2) s1(2) s1(3) False f]
    obtain s2 where ok: "port_table_ok cfg wc ipp (before(idx := before idx @ [sp]))"
      and s2: "load (udp_sockets wc) sp = Inr s2" "nx_udp_socket_port s2 = nx_udp_socket_port ?sb1"
      by blast
    from ok obtain ip2 where "load (ips wc) ipp = Inr ip2" by (rule port_table_ok_ip)
    then show ?thesis using pt[OF ok] s2 r1 r2 pb False by auto
  qed
qed

lemma udp_bind_success_port:
  assumes sk: "load (udp_sockets w) sp = Inr s0"
    and run: "nx_udp_socket_bind cfg e w sp port wait_option = Some (Inr (NX_SUCCESS, w', tr))"
  obtains p tr0 where "nx_udp_socket_bound_next s0 = NX_NULL"
    "port \<noteq> NX_ANY_PORT \<longrightarrow> p = port"
    "\<forall>t ws. (TX_THREAD_SYSTEM_SUSPEND t, ws) \<notin> set tr0"
    "udp_bind_port cfg e w tr0 sp (nx_udp_socket_ip_ptr s0) p wait_option
       = Some (Inr (NX_SUCCESS, w', tr))"
proof -
  from run sk obtain ip where ip: "load (ips w) (nx_udp_socket_ip_ptr s0) = Inr ip"
    unfolding nx_udp_socket_bind_def Let_def by (simp split: sum.splits)
  have nb: "nx_udp_socket_bound_next s0 = NX_NULL \<and> nx_udp_socket_bind_in_progress s0 = NX_NULL"
    using run sk ip unfolding nx_udp_socket_bind_def Let_def
    by (auto simp: NX_ALREADY_BOUND_def NX_SUCCESS_def split: if_splits)
  show thesis
  proof (cases "port = NX_ANY_PORT")
    case False
    then show thesis
      using run sk ip nb that[of port "[(TX_MUTEX_GET (nx_udp_socket_ip_ptr s0), w)]"]
      unfolding nx_udp_socket_bind_def Let_def by simp
  next
    case True
    then show thesis
      using run sk ip nb unfolding nx_udp_socket_bind_def Let_def
      by (auto simp: NX_NO_FREE_PORTS_def NX_SUCCESS_def split: prod.splits if_splits intro!: that)
  qed
qed

lemma udp_bind_success_table:
  assumes wf: "port_table_ok cfg w (nx_udp_socket_ip_ptr s0) buckets"
    and sk: "load (udp_sockets w) socket_ptr = Inr s0"
    and run: "nx_udp_socket_bind cfg e w socket_ptr port wait_option
                = Some (Inr (NX_SUCCESS, w', tr))"
    and wake: "\<forall>t ws. (TX_THREAD_SYSTEM_SUSPEND t, ws) \<in> set tr \<longrightarrow>
                 (port \<noteq> NX_ANY_PORT \<longrightarrow> p = port) \<and>
                 waiting_for_port cfg wu (nx_udp_socket_ip_ptr s0) bu owner socket_ptr t p \<and>
                 udp_unbind_handover cfg wu owner = Inr (tx_thread_system_suspend e ws t)"
  shows "\<exists>s' ip' before.
           load (udp_sockets w') socket_ptr = Inr s' \<and>
           load (ips w') (nx_udp_socket_ip_ptr s0) = Inr ip' \<and>
           (port \<noteq> NX_ANY_PORT \<longrightarrow> nx_udp_socket_port s' = port) \<and>
           before = (if \<forall>t ws. (TX_THREAD_SYSTEM_SUSPEND t, ws) \<notin> set tr then buckets
                     else bu(udp_hash cfg (nx_udp_socket_port s')
                               := remove1 owner (bu (udp_hash cfg (nx_udp_socket_port s'))))) \<and>
           port_table_ok cfg w' (nx_udp_socket_ip_ptr s0)
             (before(udp_hash cfg (nx_udp_socket_port s')
                        := before (udp_hash cfg (nx_udp_socket_port s')) @ [socket_ptr])) \<and>
           (before (udp_hash cfg (nx_udp_socket_port s')) = [] \<longrightarrow>
              nx_ip_udp_port_table ip' (udp_hash cfg (nx_udp_socket_port s')) = socket_ptr \<and>
              nx_udp_socket_bound_next s' = socket_ptr \<and>
              nx_udp_socket_bound_previous s' = socket_ptr)"
proof -
  let ?ipp = "nx_udp_socket_ip_ptr s0"
  from sk run obtain q tr0 where nb: "nx_udp_socket_bound_next s0 = NX_NULL"
    and pp: "port \<noteq> NX_ANY_PORT \<longrightarrow> q = port"
    and n0: "\<forall>t ws. (TX_THREAD_SYSTEM_SUSPEND t, ws) \<notin> set tr0"
    and bp: "udp_bind_port cfg e w tr0 socket_ptr ?ipp q wait_option
               = Some (Inr (NX_SUCCESS, w', tr))"
    by (rule udp_bind_success_port)
  let ?s1 = "s0\<lparr>nx_udp_socket_port := q\<rparr>"
  let ?w1 = "w\<lparr>udp_sockets := (udp_sockets w)(socket_ptr \<mapsto> ?s1)\<rparr>"
  let ?idx = "udp_hash cfg q"
  have s0: "udp_sockets w socket_ptr = Some s0" "socket_ptr \<noteq> NX_NULL"
    using sk by (simp_all add: load_Inr)
  have wf1: "port_table_ok cfg ?w1 ?ipp buckets"
    by (rule port_table_ok_frame[OF wf s0(1) nb]) simp_all
  have s1: "udp_sockets ?w1 socket_ptr = Some ?s1" "nx_udp_socket_bound_next ?s1 = NX_NULL"
    "udp_hash cfg (nx_udp_socket_port ?s1) = ?idx"
    using nb by simp_all
  from wf sk nb refl[of ?w1] show ?thesis
  proof (cases rule: udp_bind_port_cases[where port=q and e=e and ?tr0.0=tr0
           and wait_option=wait_option])
    case (empty ip)
    from empty(4) bp obtain w2 where
      f: "udp_bucket_first ?w1 ?ipp ?idx socket_ptr = Inr w2" and w2: "w' = w2"
      and tr: "tr = tr0 @ [(TX_MUTEX_PUT ?ipp, w2)]"
      by (auto split: sum.splits)
    have ns: "\<forall>t ws. (TX_THREAD_SYSTEM_SUSPEND t, ws) \<notin> set tr"
      using n0 tr by simp
    from udp_bucket_first_ok[OF wf1 s1(1) s0(2) s1(2) s1(3) empty(2) f]
    show ?thesis using pp w2 empty(2) ns by auto
  next
    case (free ip)
    from free(5) bp obtain w2 where
      f: "udp_bucket_append ?w1 (hd (buckets ?idx)) socket_ptr = Inr w2" and w2: "w' = w2"
      and tr: "tr = tr0 @ [(TX_MUTEX_PUT ?ipp, w2)]"
      by (auto split: sum.splits)
    have ns: "\<forall>t ws. (TX_THREAD_SYSTEM_SUSPEND t, ws) \<notin> set tr"
      using n0 tr by simp
    from udp_bucket_append_ok[OF wf1 s1(1) s0(2) s1(2) s1(3) free(2) f]
    obtain s2 where ok: "port_table_ok cfg w2 ?ipp (buckets(?idx := buckets ?idx @ [socket_ptr]))"
      and s2: "load (udp_sockets w2) socket_ptr = Inr s2" "nx_udp_socket_port s2 = q"
      by auto
    from ok obtain ip2 where "load (ips w2) ?ipp = Inr ip2" by (rule port_table_ok_ip)
    then show ?thesis using ok s2 pp w2 free(2) ns by auto
  next
    case (taken ip own so)
    show ?thesis
    proof (cases "wait_option = 0")
      case True
      then show ?thesis using taken(7) bp by (simp add: NX_PORT_UNAVAILABLE_def NX_SUCCESS_def)
    next
      case False
      then obtain w2 where
        tr: "tr = tr0 @ [(TX_MUTEX_PUT ?ipp, w2), (TX_THREAD_SYSTEM_SUSPEND (tx_thread_current_ptr w), w2)]"
        and w': "w' = tx_thread_system_suspend e w2 (tx_thread_current_ptr w)"
        using taken(7) bp by (auto split: sum.splits)
      have "(TX_THREAD_SYSTEM_SUSPEND (tx_thread_current_ptr w), w2) \<in> set tr" using tr by simp
      with wake have pq: "port \<noteq> NX_ANY_PORT \<longrightarrow> p = port"
        and wt: "waiting_for_port cfg wu ?ipp bu owner socket_ptr (tx_thread_current_ptr w) p"
        and ho: "udp_unbind_handover cfg wu owner = Inr w'"
        unfolding w' by blast+
      have sus: "\<not> (\<forall>t ws. (TX_THREAD_SYSTEM_SUSPEND t, ws) \<notin> set tr)" using tr by auto
      from udp_unbind_handover_ok[OF wt ho refl refl]
      show ?thesis using pq sus by (auto simp: Let_def)
    qed
  qed
qed

text \<open>
  Claim C6.  Let the port table of the socket's IP instance be well formed, with
  \<open>buckets i\<close> the members of bucket \<open>i\<close>, and let a bind return \<^verbatim>\<open>NX_SUCCESS\<close>.
  If the bind has suspended, it returns what the waker has left; the spec names
  the owner's unbind as the waker that reports success, so let the thread then
  be woken by \<open>udp_unbind_handover\<close> of an owner, in a memory \<open>wu\<close> with a
  well-formed table \<open>bu\<close> in which the socket waits for the owner's port.  With
  \<open>p\<close> the port recorded in the socket (the requested port unless that was
  \<^verbatim>\<open>NX_ANY_PORT\<close>) and \<open>idx = (p + (p >> 8)) & (P - 1)\<close>, computed on natural
  numbers, the table is well formed with the socket added at the end of bucket
  \<open>idx\<close> of the table \<open>before\<close> the splice: that is \<open>buckets\<close> if the bind has not
  suspended and \<open>bu\<close> without the owner if it has.  Every member of every bucket
  has a port whose index, in the words of the spec, is the number of the bucket,
  and its \<open>bound_next\<close> and \<open>bound_previous\<close> are members of the same bucket.
  If the bucket was empty the socket is the head of the bucket and its own
  neighbour.
\<close>

theorem udp_bind_success_splices:
  assumes wf: "port_table_ok cfg w (nx_udp_socket_ip_ptr s0) buckets"
    and sk: "load (udp_sockets w) socket_ptr = Inr s0"
    and run: "nx_udp_socket_bind cfg e w socket_ptr port wait_option
                = Some (Inr (NX_SUCCESS, w', tr))"
    and wake: "\<forall>t ws. (TX_THREAD_SYSTEM_SUSPEND t, ws) \<in> set tr \<longrightarrow>
                 (port \<noteq> NX_ANY_PORT \<longrightarrow> p = port) \<and>
                 waiting_for_port cfg wu (nx_udp_socket_ip_ptr s0) bu owner socket_ptr t p \<and>
                 udp_unbind_handover cfg wu owner = Inr (tx_thread_system_suspend e ws t)"
  shows "\<exists>s' ip' idx before after.
           load (udp_sockets w') socket_ptr = Inr s' \<and>
           load (ips w') (nx_udp_socket_ip_ptr s0) = Inr ip' \<and>
           (port \<noteq> NX_ANY_PORT \<longrightarrow> nx_udp_socket_port s' = port) \<and>
           unat idx = bucket_index (udp_port_table_size cfg) (unat (nx_udp_socket_port s')) \<and>
           before = (if \<forall>t ws. (TX_THREAD_SYSTEM_SUSPEND t, ws) \<notin> set tr then buckets
                     else bu(idx := remove1 owner (bu idx))) \<and>
           after = before(idx := before idx @ [socket_ptr]) \<and>
           port_table_ok cfg w' (nx_udp_socket_ip_ptr s0) after \<and>
           (\<forall>i a s. i \<le> NX_UDP_PORT_TABLE_MASK cfg \<and> a \<in> set (after i) \<and>
                     udp_sockets w' a = Some s \<longrightarrow>
              bucket_index (udp_port_table_size cfg) (unat (nx_udp_socket_port s)) = unat i \<and>
              nx_udp_socket_bound_next s \<in> set (after i) \<and>
              nx_udp_socket_bound_previous s \<in> set (after i)) \<and>
           (before idx = [] \<longrightarrow>
              nx_ip_udp_port_table ip' idx = socket_ptr \<and>
              nx_udp_socket_bound_next s' = socket_ptr \<and>
              nx_udp_socket_bound_previous s' = socket_ptr)"
proof -
  let ?ipp = "nx_udp_socket_ip_ptr s0"
  from udp_bind_success_table[OF wf sk run wake] obtain s' ip' before where
    s': "load (udp_sockets w') socket_ptr = Inr s'" and ip': "load (ips w') ?ipp = Inr ip'"
    and pp: "port \<noteq> NX_ANY_PORT \<longrightarrow> nx_udp_socket_port s' = port"
    and bf: "before = (if \<forall>t ws. (TX_THREAD_SYSTEM_SUSPEND t, ws) \<notin> set tr then buckets
                     else bu(udp_hash cfg (nx_udp_socket_port s')
                               := remove1 owner (bu (udp_hash cfg (nx_udp_socket_port s')))))"
    and ok: "port_table_ok cfg w' ?ipp
               (before(udp_hash cfg (nx_udp_socket_port s')
                        := before (udp_hash cfg (nx_udp_socket_port s')) @ [socket_ptr]))"
    and em: "before (udp_hash cfg (nx_udp_socket_port s')) = [] \<longrightarrow>
              nx_ip_udp_port_table ip' (udp_hash cfg (nx_udp_socket_port s')) = socket_ptr \<and>
              nx_udp_socket_bound_next s' = socket_ptr \<and>
              nx_udp_socket_bound_previous s' = socket_ptr"
    by blast
  let ?idx = "udp_hash cfg (nx_udp_socket_port s')"
  let ?after = "before(?idx := before ?idx @ [socket_ptr])"
  have ix: "unat ?idx = bucket_index (udp_port_table_size cfg) (unat (nx_udp_socket_port s'))"
    by (rule udp_hash_bucket_index)
  have mem: "bucket_index (udp_port_table_size cfg) (unat (nx_udp_socket_port s)) = unat i \<and>
             nx_udp_socket_bound_next s \<in> set (?after i) \<and>
             nx_udp_socket_bound_previous s \<in> set (?after i)"
    if i: "i \<le> NX_UDP_PORT_TABLE_MASK cfg" and a: "a \<in> set (?after i)"
      and s: "udp_sockets w' a = Some s" for i a s
  proof -
    from ok i obtain ip :: NX_IP where
      b: "bucket_ok cfg (udp_sockets w') i (nx_ip_udp_port_table ip i) (?after i)"
      unfolding port_table_ok_def by blast
    then have c: "bucket_cycle (udp_sockets w') (?after i)"
      and h: "udp_hash cfg (nx_udp_socket_port s) = i"
      using a s unfolding bucket_ok_def by blast+
    have "unat (udp_hash cfg (nx_udp_socket_port s))
            = bucket_index (udp_port_table_size cfg) (unat (nx_udp_socket_port s))"
      by (rule udp_hash_bucket_index)
    then show ?thesis using h bucket_cycle_neighbours(1,2)[OF c a s] by simp
  qed
  show ?thesis
    using s' ip' pp ix bf ok em mem
    by (intro exI[of _ s'] exI[of _ ip'] exI[of _ ?idx] exI[of _ before] exI[of _ ?after]) blast
qed

subsection \<open>Waiting for a port\<close>

lemma thread_update_Inr:
  assumes "load (threads w) p = Inr t"
  shows "thread_update p f w = Inr (w\<lparr>threads := (threads w)(p \<mapsto> f t)\<rparr>)"
  using assms by (simp add: thread_update_def)

lemma udp_update_Inr:
  assumes "load (udp_sockets w) p = Inr s"
  shows "udp_update p f w = Inr (w\<lparr>udp_sockets := (udp_sockets w)(p \<mapsto> f s)\<rparr>)"
  using assms by (simp add: udp_update_def)

lemma udp_bind_suspend_prepare_ok:
  assumes cur: "load (threads w1) (tx_thread_current_ptr w1) = Inr th"
    and s1: "load (udp_sockets w1) sp = Inr s1"
    and so: "load (udp_sockets w1) owner = Inr so" "owner \<noteq> sp"
    and lst: "nx_udp_socket_bind_suspension_list so \<noteq> NX_NULL \<Longrightarrow>
                \<exists>lh q. load (threads w1) (nx_udp_socket_bind_suspension_list so) = Inr lh \<and>
                       load (threads w1) (tx_thread_suspended_previous lh) = Inr q"
  obtains w2 so2 where "udp_bind_suspend_prepare w1 sp owner wait_option = Inr w2"
    "ips w2 = ips w1" "tx_thread_current_ptr w2 = tx_thread_current_ptr w1"
    "udp_sockets w2 = (udp_sockets w1)
        (sp \<mapsto> s1\<lparr>nx_udp_socket_bound_previous := owner,
                   nx_udp_socket_bind_in_progress := tx_thread_current_ptr w1\<rparr>,
         owner \<mapsto> so2)"
    "nx_udp_socket_port so2 = nx_udp_socket_port so"
    "nx_udp_socket_bound_next so2 = nx_udp_socket_bound_next so"
    "nx_udp_socket_bound_previous so2 = nx_udp_socket_bound_previous so"
    "\<exists>t2. load (threads w2) (tx_thread_current_ptr w1) = Inr t2"
proof -
  let ?cur = "tx_thread_current_ptr w1"
  let ?L = "nx_udp_socket_bind_suspension_list so"
  let ?s2 = "s1\<lparr>nx_udp_socket_bound_previous := owner, nx_udp_socket_bind_in_progress := ?cur\<rparr>"
  have nz: "?cur \<noteq> NX_NULL" "sp \<noteq> NX_NULL" "owner \<noteq> NX_NULL"
    and v: "threads w1 ?cur = Some th" "udp_sockets w1 sp = Some s1" "udp_sockets w1 owner = Some so"
    using cur s1 so by (simp_all add: load_Inr)
  let ?P = "\<lambda>so2. \<exists>w2. udp_bind_suspend_prepare w1 sp owner wait_option = Inr w2 \<and>
          ips w2 = ips w1 \<and> tx_thread_current_ptr w2 = ?cur \<and>
          udp_sockets w2 = (udp_sockets w1)(sp \<mapsto> ?s2, owner \<mapsto> so2) \<and>
          (\<exists>t2. load (threads w2) ?cur = Inr t2)"
  show thesis
  proof (cases "?L = NX_NULL")
    case True
    have "?P (so\<lparr>nx_udp_socket_bind_suspension_list := ?cur,
                  nx_udp_socket_bind_suspended_count := nx_udp_socket_bind_suspended_count so + 1\<rparr>)"
      using nz v so(2) True
      by (simp add: udp_bind_suspend_prepare_def Let_def thread_update_def udp_update_def load_def)
    then show thesis using that by force
  next
    case False
    from lst[OF False] obtain lh q where
      lh: "load (threads w1) ?L = Inr lh" and q: "load (threads w1) (tx_thread_suspended_previous lh) = Inr q"
      by blast
    have lv: "threads w1 ?L = Some lh" "threads w1 (tx_thread_suspended_previous lh) = Some q"
      "tx_thread_suspended_previous lh \<noteq> NX_NULL"
      using lh q by (simp_all add: load_Inr)
    have "?P (so\<lparr>nx_udp_socket_bind_suspended_count := nx_udp_socket_bind_suspended_count so + 1\<rparr>)"
      using nz v so(2) False lv
      by (auto simp add: udp_bind_suspend_prepare_def Let_def thread_update_def udp_update_def
            load_def)
    then show thesis using that by force
  qed
qed

lemma bucket_ok_fields:
  assumes ok: "bucket_ok cfg socks i head xs"
    and f: "\<And>a s. a \<in> set xs \<Longrightarrow> socks a = Some s \<Longrightarrow>
              \<exists>s'. socks' a = Some s' \<and> nx_udp_socket_port s' = nx_udp_socket_port s \<and>
                   nx_udp_socket_bound_next s' = nx_udp_socket_bound_next s \<and>
                   nx_udp_socket_bound_previous s' = nx_udp_socket_bound_previous s"
  shows "bucket_ok cfg socks' i head xs"
proof -
  from ok have c: "bucket_cycle socks xs"
    and hd: "if xs = [] then head = NX_NULL else head = hd xs"
    and hs: "\<And>a s. a \<in> set xs \<Longrightarrow> socks a = Some s \<Longrightarrow> udp_hash cfg (nx_udp_socket_port s) = i"
    unfolding bucket_ok_def by blast+
  have "\<exists>s. socks' (xs ! k) = Some s
        \<and> nx_udp_socket_bound_next s = xs ! ((k + 1) mod length xs)
        \<and> nx_udp_socket_bound_previous s = xs ! ((k + length xs - 1) mod length xs)"
    if k: "k < length xs" for k
  proof -
    from c k obtain s where s: "socks (xs ! k) = Some s"
      "nx_udp_socket_bound_next s = xs ! ((k + 1) mod length xs)"
      "nx_udp_socket_bound_previous s = xs ! ((k + length xs - 1) mod length xs)"
      unfolding bucket_cycle_def by blast
    from f[OF nth_mem[OF k] s(1)] show ?thesis using s(2,3) by auto
  qed
  then have c': "bucket_cycle socks' xs" using c unfolding bucket_cycle_def by blast
  have "udp_hash cfg (nx_udp_socket_port s') = i" if a: "a \<in> set xs" "socks' a = Some s'" for a s'
  proof -
    from c a(1) obtain s where s: "socks a = Some s" by (rule bucket_cycle_in_heap)
    from f[OF a(1) s] a(2) have "nx_udp_socket_port s' = nx_udp_socket_port s" by auto
    then show ?thesis using hs[OF a(1) s] by simp
  qed
  then show ?thesis using c' hd unfolding bucket_ok_def by blast
qed

text \<open>
  Claim C10.  On a well-formed table, a bind with a non-zero wait option to a
  port that a member of its bucket holds, called by a thread that exists, with
  the waiting lists of the members linked to existing threads, and with a
  thread system that does not delete the thread while it waits, reaches
  \<^verbatim>\<open>_tx_thread_system_suspend\<close>.  In the memory at that call the binding socket's
  \<open>bound_previous\<close> is a member of the bucket that holds the port, its
  \<open>bind_in_progress\<close> is the calling thread, its \<open>bound_next\<close> is null, and it is a
  member of no bucket: the table is well formed with the same members as
  before.
\<close>

theorem udp_bind_collision_wait:
  assumes wf: "port_table_ok cfg w (nx_udp_socket_ip_ptr s0) buckets"
    and sk: "load (udp_sockets w) socket_ptr = Inr s0"
    and nb: "nx_udp_socket_bound_next s0 = NX_NULL"
    and np: "nx_udp_socket_bind_in_progress s0 = NX_NULL"
    and port: "port \<noteq> NX_ANY_PORT"
    and held: "a \<in> set (buckets (udp_hash cfg port))" "udp_sockets w a = Some sa"
              "nx_udp_socket_port sa = port"
    and wait: "wait_option \<noteq> 0"
    and cur: "load (threads w) (tx_thread_current_ptr w) = Inr th"
    and lst: "\<forall>b sb. b \<in> set (buckets (udp_hash cfg port)) \<and> udp_sockets w b = Some sb \<and>
                nx_udp_socket_bind_suspension_list sb \<noteq> NX_NULL \<longrightarrow>
                (\<exists>lh q. load (threads w) (nx_udp_socket_bind_suspension_list sb) = Inr lh \<and>
                        load (threads w) (tx_thread_suspended_previous lh) = Inr q)"
    and again: "\<forall>w2 t2. load (threads w2) (tx_thread_current_ptr w) = Inr t2 \<longrightarrow>
                 (\<exists>t. load (threads (tx_thread_system_suspend e w2 (tx_thread_current_ptr w)))
                        (tx_thread_current_ptr w) = Inr t)"
  shows "\<exists>st w' ws owner so sw.
           nx_udp_socket_bind cfg e w socket_ptr port wait_option
             = Some (Inr (st, w',
                  [(TX_MUTEX_GET (nx_udp_socket_ip_ptr s0), w),
                   (TX_MUTEX_PUT (nx_udp_socket_ip_ptr s0), ws),
                   (TX_THREAD_SYSTEM_SUSPEND (tx_thread_current_ptr w), ws)])) \<and>
           w' = tx_thread_system_suspend e ws (tx_thread_current_ptr w) \<and>
           owner \<in> set (buckets (udp_hash cfg port)) \<and> udp_sockets w owner = Some so \<and>
           nx_udp_socket_port so = port \<and>
           udp_sockets ws socket_ptr = Some sw \<and>
           nx_udp_socket_bound_previous sw = owner \<and> owner \<noteq> NX_NULL \<and>
           nx_udp_socket_bind_in_progress sw = tx_thread_current_ptr w \<and>
           tx_thread_current_ptr w \<noteq> NX_NULL \<and>
           nx_udp_socket_bound_next sw = NX_NULL \<and>
           (\<forall>i. i \<le> NX_UDP_PORT_TABLE_MASK cfg \<longrightarrow> socket_ptr \<notin> set (buckets i)) \<and>
           port_table_ok cfg ws (nx_udp_socket_ip_ptr s0) buckets"
proof -
  let ?ipp = "nx_udp_socket_ip_ptr s0"
  let ?cur = "tx_thread_current_ptr w"
  let ?s1 = "s0\<lparr>nx_udp_socket_port := port\<rparr>"
  let ?w1 = "w\<lparr>udp_sockets := (udp_sockets w)(socket_ptr \<mapsto> ?s1)\<rparr>"
  from wf obtain ip where ip: "load (ips w) ?ipp = Inr ip" by (rule port_table_ok_ip)
  have s0: "udp_sockets w socket_ptr = Some s0" "socket_ptr \<noteq> NX_NULL"
    using sk by (simp_all add: load_Inr)
  have cn: "?cur \<noteq> NX_NULL" using cur by (simp add: load_Inr)
  have wf1: "port_table_ok cfg ?w1 ?ipp buckets"
    by (rule port_table_ok_frame[OF wf s0(1) nb]) simp_all
  have nm: "\<forall>i. i \<le> NX_UDP_PORT_TABLE_MASK cfg \<longrightarrow> socket_ptr \<notin> set (buckets i)"
    using unbound_not_member[OF wf s0(1) nb] by blast
  have run: "nx_udp_socket_bind cfg e w socket_ptr port wait_option =
               udp_bind_port cfg e w [(TX_MUTEX_GET ?ipp, w)] socket_ptr ?ipp port wait_option"
    by (rule udp_bind_known_port[OF sk ip nb np port])
  from wf sk nb refl[of ?w1] show ?thesis
  proof (cases rule: udp_bind_port_cases[where port=port and e=e
           and ?tr0.0="[(TX_MUTEX_GET ?ipp, w)]" and wait_option=wait_option])
    case (empty ip)
    then show ?thesis using held(1) by simp
  next
    case (free ip)
    then show ?thesis using held by blast
  next
    case (taken ip' owner so)
    have c1: "load (threads ?w1) (tx_thread_current_ptr ?w1) = Inr th" using cur by simp
    have l1: "load (udp_sockets ?w1) socket_ptr = Inr ?s1" using s0(2) by (simp add: load_Inr)
    have o1: "load (udp_sockets ?w1) owner = Inr so" using taken(3,5,6) by (simp add: load_Inr)
    have ls: "\<exists>lh q. load (threads ?w1) (nx_udp_socket_bind_suspension_list so) = Inr lh \<and>
                     load (threads ?w1) (tx_thread_suspended_previous lh) = Inr q"
      if "nx_udp_socket_bind_suspension_list so \<noteq> NX_NULL"
      using lst taken(2,3) that by simp
    from c1 l1 o1 taken(5) ls obtain w2 so2 where
      p: "udp_bind_suspend_prepare ?w1 socket_ptr owner wait_option = Inr w2"
      and i2: "ips w2 = ips ?w1"
      and u2: "udp_sockets w2 = (udp_sockets ?w1)
                 (socket_ptr \<mapsto> ?s1\<lparr>nx_udp_socket_bound_previous := owner,
                                       nx_udp_socket_bind_in_progress := tx_thread_current_ptr ?w1\<rparr>,
                  owner \<mapsto> so2)"
      and f2: "nx_udp_socket_port so2 = nx_udp_socket_port so"
              "nx_udp_socket_bound_next so2 = nx_udp_socket_bound_next so"
              "nx_udp_socket_bound_previous so2 = nx_udp_socket_bound_previous so"
      and t2: "\<exists>t2. load (threads w2) (tx_thread_current_ptr ?w1) = Inr t2"
      by (rule udp_bind_suspend_prepare_ok)
    from t2 again obtain t where
      t: "load (threads (tx_thread_system_suspend e w2 ?cur)) ?cur = Inr t" by auto
    have res: "nx_udp_socket_bind cfg e w socket_ptr port wait_option
             = Some (Inr (tx_thread_suspend_status t, tx_thread_system_suspend e w2 ?cur,
                  [(TX_MUTEX_GET ?ipp, w), (TX_MUTEX_PUT ?ipp, w2),
                   (TX_THREAD_SYSTEM_SUSPEND ?cur, w2)]))"
      unfolding run taken(7) using wait p t by simp
    from wf1 obtain ip1 where ip1: "load (ips ?w1) ?ipp = Inr ip1"
      and b1: "\<And>i. i \<le> NX_UDP_PORT_TABLE_MASK cfg \<Longrightarrow>
              bucket_ok cfg (udp_sockets ?w1) i (nx_ip_udp_port_table ip1 i) (buckets i)"
      unfolding port_table_ok_def by blast
    have "bucket_ok cfg (udp_sockets w2) i (nx_ip_udp_port_table ip1 i) (buckets i)"
      if i: "i \<le> NX_UDP_PORT_TABLE_MASK cfg" for i
    proof (rule bucket_ok_fields[OF b1[OF i]])
      fix b s assume b: "b \<in> set (buckets i)" "udp_sockets ?w1 b = Some s"
      have bs: "b \<noteq> socket_ptr" using nm i b(1) by blast
      show "\<exists>s'. udp_sockets w2 b = Some s' \<and> nx_udp_socket_port s' = nx_udp_socket_port s \<and>
                   nx_udp_socket_bound_next s' = nx_udp_socket_bound_next s \<and>
                   nx_udp_socket_bound_previous s' = nx_udp_socket_bound_previous s"
      proof (cases "b = owner")
        case True
        then have "s = so" using b(2) o1 by (simp add: load_Inr)
        then show ?thesis using True f2 by (simp add: u2)
      next
        case False
        then show ?thesis using bs b(2) by (simp add: u2)
      qed
    qed
    then have ok2: "port_table_ok cfg w2 ?ipp buckets"
      unfolding port_table_ok_def i2 using ip1 by blast
    have sw: "udp_sockets w2 socket_ptr =
                Some (?s1\<lparr>nx_udp_socket_bound_previous := owner,
                           nx_udp_socket_bind_in_progress := ?cur\<rparr>)"
      using taken(5) by (simp add: u2)
    show ?thesis
      using res taken(2,3,4,6) sw cn nm ok2 nb
      by (intro exI[of _ "tx_thread_suspend_status t"] exI[of _ "tx_thread_system_suspend e w2 ?cur"]
            exI[of _ w2] exI[of _ owner] exI[of _ so]
            exI[of _ "?s1\<lparr>nx_udp_socket_bound_previous := owner,
                             nx_udp_socket_bind_in_progress := ?cur\<rparr>"]) simp
  qed
qed

subsection \<open>Binds of the concrete system\<close>

lemma ex_hash_5000: "udp_hash ex_cfg 5000 = 27"
  by (simp add: udp_hash_def ex_cfg_def)

lemma ex_hash_5032: "udp_hash ex_cfg 5032 = 27"
  by (simp add: udp_hash_def ex_cfg_def)

lemma ex_port_table_ok: "port_table_ok ex_cfg ex_world 1 ex_buckets"
proof -
  have ip: "load (ips ex_world) 1 = Inr ex_ip" by (simp add: load_def NX_NULL_def ex_world_def)
  have b: "bucket_cycle (udp_sockets ex_world) [10]"
    by (rule bucket_cycle_single[of _ _ ex_udp_bound])
       (simp_all add: NX_NULL_def ex_world_def ex_udp_bound_def)
  have "bucket_ok ex_cfg (udp_sockets ex_world) i (nx_ip_udp_port_table ex_ip i) (ex_buckets i)" for i
  proof (cases "i = 27")
    case True
    then show ?thesis
      using b ex_hash_5000
      by (simp add: bucket_ok_def ex_buckets_def ex_ip_def ex_world_def ex_udp_bound_def)
  next
    case False
    then show ?thesis
      by (simp add: bucket_ok_def bucket_cycle_def ex_buckets_def ex_ip_def NX_NULL_def)
  qed
  then show ?thesis unfolding port_table_ok_def using ip by blast
qed

lemma ex_unbound_socket:
  "load (udp_sockets ex_world) 20 = Inr ex_udp_unbound"
  "nx_udp_socket_ip_ptr ex_udp_unbound = 1"
  "nx_udp_socket_bound_next ex_udp_unbound = NX_NULL"
  "nx_udp_socket_bind_in_progress ex_udp_unbound = NX_NULL"
  by (simp_all add: load_def NX_NULL_def ex_world_def ex_udp_unbound_def)

lemma ex_search:
  "m 10 = Some ex_udp_bound \<Longrightarrow> udp_port_search m p 10 10 = Some (Inr 10)"
  by (subst udp_port_search.simps) (simp add: load_def NX_NULL_def ex_udp_bound_def)

lemma ex_owner:
  "10 \<in> set (ex_buckets (udp_hash ex_cfg 5000))" "udp_sockets ex_world 10 = Some ex_udp_bound"
  "nx_udp_socket_port ex_udp_bound = 5000"
  by (simp_all add: ex_hash_5000 ex_buckets_def ex_world_def ex_udp_bound_def)

text \<open>
  With a roll-back of the recorded port the statement fails: socket 20, whose
  port is 0, binds without waiting to port 5000, which socket 10 holds; the bind
  returns \<^verbatim>\<open>NX_PORT_UNAVAILABLE\<close> and socket 20 has port 5000 afterwards.
\<close>

theorem udp_bind_collision_counterexample:
  "nx_udp_socket_bind ex_cfg ex_env ex_world 20 5000 0
     = Some (Inr (NX_PORT_UNAVAILABLE, ex_world_collided,
                  [(TX_MUTEX_GET 1, ex_world), (TX_MUTEX_PUT 1, ex_world_collided)]))
   \<and> map_option nx_udp_socket_port (udp_sockets ex_world 20) = Some 0
   \<and> map_option nx_udp_socket_port (udp_sockets ex_world_collided 20) = Some 5000"
  by (simp add: nx_udp_socket_bind_def udp_bind_port_def Let_def load_def NX_NULL_def
        NX_ANY_PORT_def ex_world_collided_def ex_world_def ex_udp_unbound_def ex_ip_def
        udp_update_def ex_hash_5000 ex_search)
     (simp add: ex_udp_bound_def)

theorem udp_bind_collision_no_wait_witness:
  "nx_udp_socket_bind ex_cfg ex_env ex_world 20 5000 0
     = Some (Inr (NX_PORT_UNAVAILABLE,
                  ex_world\<lparr>udp_sockets := (udp_sockets ex_world)
                     (20 \<mapsto> ex_udp_unbound\<lparr>nx_udp_socket_port := 5000\<rparr>)\<rparr>,
                  [(TX_MUTEX_GET 1, ex_world),
                   (TX_MUTEX_PUT 1,
                    ex_world\<lparr>udp_sockets := (udp_sockets ex_world)
                       (20 \<mapsto> ex_udp_unbound\<lparr>nx_udp_socket_port := 5000\<rparr>)\<rparr>)]))
   \<and> port_table_ok ex_cfg
        (ex_world\<lparr>udp_sockets := (udp_sockets ex_world)
           (20 \<mapsto> ex_udp_unbound\<lparr>nx_udp_socket_port := 5000\<rparr>)\<rparr>) 1 ex_buckets"
proof -
  have wf: "port_table_ok ex_cfg ex_world (nx_udp_socket_ip_ptr ex_udp_unbound) ex_buckets"
    using ex_port_table_ok by (simp add: ex_unbound_socket)
  have p: "(5000 :: UINT) \<noteq> NX_ANY_PORT" by (simp add: NX_ANY_PORT_def)
  from udp_bind_collision_no_wait[OF wf ex_unbound_socket(1,3,4) p ex_owner, of ex_env]
  show ?thesis by (simp add: ex_unbound_socket)
qed

lemma ex_bind_success:
  "\<exists>w'. nx_udp_socket_bind ex_cfg ex_env ex_world 20 5032 0
           = Some (Inr (NX_SUCCESS, w', [(TX_MUTEX_GET 1, ex_world), (TX_MUTEX_PUT 1, w')]))"
  by (simp add: nx_udp_socket_bind_def udp_bind_port_def Let_def load_def NX_NULL_def
        NX_ANY_PORT_def ex_world_def ex_udp_unbound_def ex_ip_def
        udp_update_def udp_bucket_append_def ex_hash_5032 ex_search)
     (simp add: ex_udp_bound_def)

lemma ex_hash_6000: "udp_hash ex_cfg 6000 = 7"
  by (simp add: udp_hash_def ex_cfg_def)

lemma ex_bind_success_empty:
  "\<exists>w'. nx_udp_socket_bind ex_cfg ex_env ex_world 20 6000 0
           = Some (Inr (NX_SUCCESS, w', [(TX_MUTEX_GET 1, ex_world), (TX_MUTEX_PUT 1, w')]))"
  by (simp add: nx_udp_socket_bind_def udp_bind_port_def Let_def load_def NX_NULL_def
        NX_ANY_PORT_def ex_world_def ex_udp_unbound_def ex_ip_def
        udp_update_def udp_bucket_first_def ex_hash_6000)

text \<open>
  The bind of socket 20 to port 5000 with a wait, during which socket 10 unbinds:
  the thread is queued on socket 10, and the unbind hands the port over.
\<close>

lemma ex_suspended_table_ok: "port_table_ok ex_cfg ex_world_suspended 1 ex_buckets"
proof -
  have ip: "load (ips ex_world_suspended) 1 = Inr ex_ip"
    by (simp add: load_def NX_NULL_def ex_world_suspended_def ex_world_def)
  have b: "bucket_cycle (udp_sockets ex_world_suspended) [10]"
    by (rule bucket_cycle_single[of _ _ "ex_udp_bound\<lparr>nx_udp_socket_bind_suspension_list := 400,
                                                    nx_udp_socket_bind_suspended_count := 1\<rparr>"])
       (simp_all add: NX_NULL_def ex_world_suspended_def ex_udp_bound_def)
  have "bucket_ok ex_cfg (udp_sockets ex_world_suspended) i (nx_ip_udp_port_table ex_ip i) (ex_buckets i)"
    for i
  proof (cases "i = 27")
    case True
    then show ?thesis
      using b ex_hash_5000
      by (simp add: bucket_ok_def ex_buckets_def ex_ip_def ex_world_suspended_def ex_udp_bound_def)
  next
    case False
    then show ?thesis
      by (simp add: bucket_ok_def bucket_cycle_def ex_buckets_def ex_ip_def NX_NULL_def)
  qed
  then show ?thesis unfolding port_table_ok_def using ip by blast
qed

lemma ex_waiting: "waiting_for_port ex_cfg ex_world_suspended 1 ex_buckets 10 20 400 5000"
  unfolding waiting_for_port_def
  using ex_suspended_table_ok
  by (simp add: load_def NX_NULL_def ex_world_suspended_def ex_world_def ex_udp_bound_def
        ex_udp_unbound_def ex_hash_5000 ex_buckets_def)

lemma ex_suspend_prepare:
  "udp_bind_suspend_prepare
     (ex_world\<lparr>udp_sockets := (udp_sockets ex_world)(20 \<mapsto> ex_udp_unbound\<lparr>nx_udp_socket_port := 5000\<rparr>)\<rparr>)
     20 10 5 = Inr ex_world_suspended"
  by (simp add: udp_bind_suspend_prepare_def Let_def thread_update_def udp_update_def load_def
        NX_NULL_def ex_world_suspended_def ex_world_def ex_udp_bound_def ex_udp_unbound_def
        ex_thread_def fun_eq_iff)

lemma ex_handover:
  "\<exists>w' t. udp_unbind_handover ex_cfg ex_world_suspended 10 = Inr w' \<and>
          load (threads w') 400 = Inr t \<and> tx_thread_suspend_status t = NX_SUCCESS"
  by (simp add: udp_unbind_handover_def udp_bucket_unlink_def udp_bucket_first_def Let_def
        thread_update_def udp_update_def load_def NX_NULL_def ex_world_suspended_def ex_world_def
        ex_udp_bound_def ex_udp_unbound_def ex_ip_def ex_hash_5000)

lemma ex_bind_handover:
  "\<exists>w'. nx_udp_socket_bind ex_cfg ex_env_unbind ex_world 20 5000 5
           = Some (Inr (NX_SUCCESS, w',
                [(TX_MUTEX_GET 1, ex_world), (TX_MUTEX_PUT 1, ex_world_suspended),
                 (TX_THREAD_SYSTEM_SUSPEND 400, ex_world_suspended)])) \<and>
         udp_unbind_handover ex_cfg ex_world_suspended 10 = Inr w'"
proof -
  let ?w1 = "ex_world\<lparr>udp_sockets :=
               (udp_sockets ex_world)(20 \<mapsto> ex_udp_unbound\<lparr>nx_udp_socket_port := 5000\<rparr>)\<rparr>"
  have wf: "port_table_ok ex_cfg ex_world 1 ex_buckets" by (rule ex_port_table_ok)
  from wf obtain ip where ip: "load (ips ex_world) 1 = Inr ip" by (rule port_table_ok_ip)
  have port: "(5000 :: UINT) \<noteq> NX_ANY_PORT" by (simp add: NX_ANY_PORT_def)
  have cur: "tx_thread_current_ptr ex_world = 400" by (simp add: ex_world_def)
  have run: "nx_udp_socket_bind ex_cfg ex_env_unbind ex_world 20 5000 5 =
               udp_bind_port ex_cfg ex_env_unbind ex_world [(TX_MUTEX_GET 1, ex_world)] 20 1 5000 5"
    using udp_bind_known_port[where cfg=ex_cfg and e=ex_env_unbind and wait_option=5,
            OF ex_unbound_socket(1) _ ex_unbound_socket(3,4) port] ip
    by (simp add: ex_unbound_socket(2))
  from ex_handover obtain w' t where h: "udp_unbind_handover ex_cfg ex_world_suspended 10 = Inr w'"
    and t: "load (threads w') 400 = Inr t" "tx_thread_suspend_status t = NX_SUCCESS" by blast
  have sus: "tx_thread_system_suspend ex_env_unbind ex_world_suspended 400 = w'"
    by (simp add: ex_env_unbind_def h)
  from wf ex_unbound_socket(1,3) refl[of ?w1]
  have "nx_udp_socket_bind ex_cfg ex_env_unbind ex_world 20 5000 5
           = Some (Inr (NX_SUCCESS, w',
                [(TX_MUTEX_GET 1, ex_world), (TX_MUTEX_PUT 1, ex_world_suspended),
                 (TX_THREAD_SYSTEM_SUSPEND 400, ex_world_suspended)]))"
  proof (cases rule: udp_bind_port_cases[where port=5000 and e=ex_env_unbind
           and ?tr0.0="[(TX_MUTEX_GET 1, ex_world)]" and wait_option=5])
    case (empty ip)
    then show ?thesis by (simp add: ex_hash_5000 ex_buckets_def)
  next
    case (free ip)
    then show ?thesis using ex_owner by blast
  next
    case (taken ip own so)
    have "own = 10" using taken(2) by (simp add: ex_hash_5000 ex_buckets_def)
    then show ?thesis
      unfolding run taken(7) by (simp add: ex_suspend_prepare cur sus t)
  qed
  then show ?thesis using h by blast
qed

theorem udp_bind_success_splices_witness:
  "(\<exists>w' s'.
      nx_udp_socket_bind ex_cfg ex_env ex_world 20 5032 0
        = Some (Inr (NX_SUCCESS, w', [(TX_MUTEX_GET 1, ex_world), (TX_MUTEX_PUT 1, w')])) \<and>
      load (udp_sockets w') 20 = Inr s' \<and> nx_udp_socket_port s' = 5032 \<and>
      bucket_index 32 5032 = 27 \<and>
      port_table_ok ex_cfg w' 1 (ex_buckets(27 := [10, 20]))) \<and>
   (\<exists>w' s' ip'.
      nx_udp_socket_bind ex_cfg ex_env ex_world 20 6000 0
        = Some (Inr (NX_SUCCESS, w', [(TX_MUTEX_GET 1, ex_world), (TX_MUTEX_PUT 1, w')])) \<and>
      load (udp_sockets w') 20 = Inr s' \<and> nx_udp_socket_port s' = 6000 \<and>
      bucket_index 32 6000 = 7 \<and>
      load (ips w') 1 = Inr ip' \<and> nx_ip_udp_port_table ip' 7 = 20 \<and>
      nx_udp_socket_bound_next s' = 20 \<and> nx_udp_socket_bound_previous s' = 20 \<and>
      port_table_ok ex_cfg w' 1 (ex_buckets(7 := [20]))) \<and>
   (\<exists>w' s' ip'.
      nx_udp_socket_bind ex_cfg ex_env_unbind ex_world 20 5000 5
        = Some (Inr (NX_SUCCESS, w',
             [(TX_MUTEX_GET 1, ex_world), (TX_MUTEX_PUT 1, ex_world_suspended),
              (TX_THREAD_SYSTEM_SUSPEND 400, ex_world_suspended)])) \<and>
      load (udp_sockets w') 20 = Inr s' \<and> nx_udp_socket_port s' = 5000 \<and>
      bucket_index 32 5000 = 27 \<and>
      load (ips w') 1 = Inr ip' \<and> nx_ip_udp_port_table ip' 27 = 20 \<and>
      nx_udp_socket_bound_next s' = 20 \<and> nx_udp_socket_bound_previous s' = 20 \<and>
      port_table_ok ex_cfg w' 1 (ex_buckets(27 := [20])))"
proof -
  have wf: "port_table_ok ex_cfg ex_world (nx_udp_socket_ip_ptr ex_udp_unbound) ex_buckets"
    using ex_port_table_ok by (simp add: ex_unbound_socket)
  have sz: "udp_port_table_size ex_cfg = 32" by (simp add: udp_port_table_size_def ex_cfg_def)
  have i1: "bucket_index 32 5032 = 27" "bucket_index 32 6000 = 7" "bucket_index 32 5000 = 27"
    by (simp_all add: bucket_index_def)
  have un: "unat idx = 27 \<Longrightarrow> idx = 27" "unat idx = 7 \<Longrightarrow> idx = 7" for idx :: UINT
    by (simp_all add: word_unat_eq_iff)
  have ip1: "nx_udp_socket_ip_ptr ex_udp_unbound = 1" by (rule ex_unbound_socket(2))
  have b27: "ex_buckets 27 = [10]" and b7: "ex_buckets 7 = []" by (simp_all add: ex_buckets_def)
  from ex_bind_success obtain w1 where
    run1: "nx_udp_socket_bind ex_cfg ex_env ex_world 20 5032 0
            = Some (Inr (NX_SUCCESS, w1, [(TX_MUTEX_GET 1, ex_world), (TX_MUTEX_PUT 1, w1)]))"
    by blast
  have ns1: "\<forall>t ws. (TX_THREAD_SYSTEM_SUSPEND t, ws)
                \<notin> set [(TX_MUTEX_GET 1, ex_world), (TX_MUTEX_PUT 1, w1)]" by simp
  have wk1: "\<forall>t ws. (TX_THREAD_SYSTEM_SUSPEND t, ws)
                \<in> set [(TX_MUTEX_GET 1, ex_world), (TX_MUTEX_PUT 1, w1)] \<longrightarrow>
              ((5032 :: UINT) \<noteq> NX_ANY_PORT \<longrightarrow> (5032 :: UINT) = 5032) \<and>
              waiting_for_port ex_cfg ex_world (nx_udp_socket_ip_ptr ex_udp_unbound) ex_buckets
                10 20 t 5032 \<and>
              udp_unbind_handover ex_cfg ex_world 10 = Inr (tx_thread_system_suspend ex_env ws t)"
    by simp
  have p1: "(5032 :: UINT) \<noteq> NX_ANY_PORT" by (simp add: NX_ANY_PORT_def)
  from udp_bind_success_splices[OF wf ex_unbound_socket(1) run1 wk1]
  obtain s1 idx1 before1 after1 where
    s1: "load (udp_sockets w1) 20 = Inr s1" "nx_udp_socket_port s1 = 5032"
    and x1: "unat idx1 = bucket_index (udp_port_table_size ex_cfg) (unat (nx_udp_socket_port s1))"
    and bf1: "before1 = ex_buckets"
    and af1: "after1 = before1(idx1 := before1 idx1 @ [20])"
    and ok1: "port_table_ok ex_cfg w1 1 after1"
    unfolding ip1 using p1 ns1 by auto
  have "idx1 = 27" using x1 by (simp add: s1(2) sz i1 un)
  then have "after1 = ex_buckets(27 := [10, 20])" using af1 bf1 b27 by simp
  then have a: "\<exists>w' s'.
      nx_udp_socket_bind ex_cfg ex_env ex_world 20 5032 0
        = Some (Inr (NX_SUCCESS, w', [(TX_MUTEX_GET 1, ex_world), (TX_MUTEX_PUT 1, w')])) \<and>
      load (udp_sockets w') 20 = Inr s' \<and> nx_udp_socket_port s' = 5032 \<and>
      bucket_index 32 5032 = 27 \<and>
      port_table_ok ex_cfg w' 1 (ex_buckets(27 := [10, 20]))"
    using run1 s1 i1(1) ok1 by blast
  from ex_bind_success_empty obtain w2 where
    run2: "nx_udp_socket_bind ex_cfg ex_env ex_world 20 6000 0
            = Some (Inr (NX_SUCCESS, w2, [(TX_MUTEX_GET 1, ex_world), (TX_MUTEX_PUT 1, w2)]))"
    by blast
  have ns2: "\<forall>t ws. (TX_THREAD_SYSTEM_SUSPEND t, ws)
                \<notin> set [(TX_MUTEX_GET 1, ex_world), (TX_MUTEX_PUT 1, w2)]" by simp
  have wk2: "\<forall>t ws. (TX_THREAD_SYSTEM_SUSPEND t, ws)
                \<in> set [(TX_MUTEX_GET 1, ex_world), (TX_MUTEX_PUT 1, w2)] \<longrightarrow>
              ((6000 :: UINT) \<noteq> NX_ANY_PORT \<longrightarrow> (6000 :: UINT) = 6000) \<and>
              waiting_for_port ex_cfg ex_world (nx_udp_socket_ip_ptr ex_udp_unbound) ex_buckets
                10 20 t 6000 \<and>
              udp_unbind_handover ex_cfg ex_world 10 = Inr (tx_thread_system_suspend ex_env ws t)"
    by simp
  have p2: "(6000 :: UINT) \<noteq> NX_ANY_PORT" by (simp add: NX_ANY_PORT_def)
  from udp_bind_success_splices[OF wf ex_unbound_socket(1) run2 wk2]
  obtain s2 ip2 idx2 before2 after2 where
    s2: "load (udp_sockets w2) 20 = Inr s2" "nx_udp_socket_port s2 = 6000"
    and l2: "load (ips w2) 1 = Inr ip2"
    and x2: "unat idx2 = bucket_index (udp_port_table_size ex_cfg) (unat (nx_udp_socket_port s2))"
    and bf2: "before2 = ex_buckets"
    and af2: "after2 = before2(idx2 := before2 idx2 @ [20])"
    and ok2: "port_table_ok ex_cfg w2 1 after2"
    and em2: "before2 idx2 = [] \<longrightarrow>
                nx_ip_udp_port_table ip2 idx2 = 20 \<and>
                nx_udp_socket_bound_next s2 = 20 \<and> nx_udp_socket_bound_previous s2 = 20"
    unfolding ip1 using p2 ns2 by auto
  have e2: "idx2 = 7" using x2 by (simp add: s2(2) sz i1 un)
  then have "after2 = ex_buckets(7 := [20])" using af2 bf2 b7 by simp
  moreover have "nx_ip_udp_port_table ip2 7 = 20 \<and>
                nx_udp_socket_bound_next s2 = 20 \<and> nx_udp_socket_bound_previous s2 = 20"
    using em2 e2 bf2 b7 by simp
  ultimately have b: "\<exists>w' s' ip'.
      nx_udp_socket_bind ex_cfg ex_env ex_world 20 6000 0
        = Some (Inr (NX_SUCCESS, w', [(TX_MUTEX_GET 1, ex_world), (TX_MUTEX_PUT 1, w')])) \<and>
      load (udp_sockets w') 20 = Inr s' \<and> nx_udp_socket_port s' = 6000 \<and>
      bucket_index 32 6000 = 7 \<and>
      load (ips w') 1 = Inr ip' \<and> nx_ip_udp_port_table ip' 7 = 20 \<and>
      nx_udp_socket_bound_next s' = 20 \<and> nx_udp_socket_bound_previous s' = 20 \<and>
      port_table_ok ex_cfg w' 1 (ex_buckets(7 := [20]))"
    using run2 s2 l2 i1(2) ok2 by blast
  from ex_bind_handover obtain w3 where
    run3: "nx_udp_socket_bind ex_cfg ex_env_unbind ex_world 20 5000 5
            = Some (Inr (NX_SUCCESS, w3,
                 [(TX_MUTEX_GET 1, ex_world), (TX_MUTEX_PUT 1, ex_world_suspended),
                  (TX_THREAD_SYSTEM_SUSPEND 400, ex_world_suspended)]))"
    and h3: "udp_unbind_handover ex_cfg ex_world_suspended 10 = Inr w3"
    by blast
  have sus3: "tx_thread_system_suspend ex_env_unbind ex_world_suspended 400 = w3"
    by (simp add: ex_env_unbind_def h3)
  have wk3: "\<forall>t ws. (TX_THREAD_SYSTEM_SUSPEND t, ws)
                \<in> set [(TX_MUTEX_GET 1, ex_world), (TX_MUTEX_PUT 1, ex_world_suspended),
                        (TX_THREAD_SYSTEM_SUSPEND 400, ex_world_suspended)] \<longrightarrow>
              ((5000 :: UINT) \<noteq> NX_ANY_PORT \<longrightarrow> (5000 :: UINT) = 5000) \<and>
              waiting_for_port ex_cfg ex_world_suspended (nx_udp_socket_ip_ptr ex_udp_unbound)
                ex_buckets 10 20 t 5000 \<and>
              udp_unbind_handover ex_cfg ex_world_suspended 10
                = Inr (tx_thread_system_suspend ex_env_unbind ws t)"
    using ex_waiting h3 sus3 by (simp add: ip1)
  have p3: "(5000 :: UINT) \<noteq> NX_ANY_PORT" by (simp add: NX_ANY_PORT_def)
  have sp3: "\<not> (\<forall>t ws. (TX_THREAD_SYSTEM_SUSPEND t, ws)
                \<notin> set [(TX_MUTEX_GET 1, ex_world), (TX_MUTEX_PUT 1, ex_world_suspended),
                        (TX_THREAD_SYSTEM_SUSPEND 400, ex_world_suspended)])" by simp
  from udp_bind_success_splices[OF wf ex_unbound_socket(1) run3 wk3]
  obtain s3 ip3 idx3 before3 after3 where
    s3: "load (udp_sockets w3) 20 = Inr s3" "nx_udp_socket_port s3 = 5000"
    and l3: "load (ips w3) 1 = Inr ip3"
    and x3: "unat idx3 = bucket_index (udp_port_table_size ex_cfg) (unat (nx_udp_socket_port s3))"
    and bf3: "before3 = ex_buckets(idx3 := remove1 10 (ex_buckets idx3))"
    and af3: "after3 = before3(idx3 := before3 idx3 @ [20])"
    and ok3: "port_table_ok ex_cfg w3 1 after3"
    and em3: "before3 idx3 = [] \<longrightarrow>
                nx_ip_udp_port_table ip3 idx3 = 20 \<and>
                nx_udp_socket_bound_next s3 = 20 \<and> nx_udp_socket_bound_previous s3 = 20"
    unfolding ip1 if_not_P[OF sp3] using p3 by auto
  have e3: "idx3 = 27" using x3 by (simp add: s3(2) sz i1 un)
  have be3: "before3 27 = []" using bf3 e3 b27 by simp
  have "after3 = ex_buckets(27 := [20])" using af3 bf3 e3 b27 by simp
  moreover have "nx_ip_udp_port_table ip3 27 = 20 \<and>
                nx_udp_socket_bound_next s3 = 20 \<and> nx_udp_socket_bound_previous s3 = 20"
    using em3 e3 be3 by simp
  ultimately have c: "\<exists>w' s' ip'.
      nx_udp_socket_bind ex_cfg ex_env_unbind ex_world 20 5000 5
        = Some (Inr (NX_SUCCESS, w',
             [(TX_MUTEX_GET 1, ex_world), (TX_MUTEX_PUT 1, ex_world_suspended),
              (TX_THREAD_SYSTEM_SUSPEND 400, ex_world_suspended)])) \<and>
      load (udp_sockets w') 20 = Inr s' \<and> nx_udp_socket_port s' = 5000 \<and>
      bucket_index 32 5000 = 27 \<and>
      load (ips w') 1 = Inr ip' \<and> nx_ip_udp_port_table ip' 27 = 20 \<and>
      nx_udp_socket_bound_next s' = 20 \<and> nx_udp_socket_bound_previous s' = 20 \<and>
      port_table_ok ex_cfg w' 1 (ex_buckets(27 := [20]))"
    using run3 s3 l3 i1(3) ok3 by blast
  from a b c show ?thesis by blast
qed

lemma ex_waiting_table_ok: "port_table_ok ex_cfg ex_world_waiting 1 ex_buckets"
proof -
  have ip: "load (ips ex_world_waiting) 1 = Inr ex_ip"
    by (simp add: load_def NX_NULL_def ex_world_waiting_def ex_world_def)
  have b: "bucket_cycle (udp_sockets ex_world_waiting) [10]"
    by (rule bucket_cycle_single[of _ _ "ex_udp_bound\<lparr>nx_udp_socket_bind_suspension_list := 401,
                                                    nx_udp_socket_bind_suspended_count := 1\<rparr>"])
       (simp_all add: NX_NULL_def ex_world_waiting_def ex_udp_bound_def)
  have "bucket_ok ex_cfg (udp_sockets ex_world_waiting) i (nx_ip_udp_port_table ex_ip i) (ex_buckets i)"
    for i
  proof (cases "i = 27")
    case True
    then show ?thesis
      using b ex_hash_5000
      by (simp add: bucket_ok_def ex_buckets_def ex_ip_def ex_world_waiting_def ex_udp_bound_def)
  next
    case False
    then show ?thesis
      by (simp add: bucket_ok_def bucket_cycle_def ex_buckets_def ex_ip_def NX_NULL_def)
  qed
  then show ?thesis unfolding port_table_ok_def using ip by blast
qed

theorem udp_bind_collision_wait_witness:
  "\<exists>st w' ws sw.
     nx_udp_socket_bind ex_cfg ex_env ex_world_waiting 20 5000 5
       = Some (Inr (st, w', [(TX_MUTEX_GET 1, ex_world_waiting), (TX_MUTEX_PUT 1, ws),
                             (TX_THREAD_SYSTEM_SUSPEND 400, ws)])) \<and>
     udp_sockets ws 20 = Some sw \<and>
     nx_udp_socket_bound_previous sw = 10 \<and> nx_udp_socket_bind_in_progress sw = 400 \<and>
     nx_udp_socket_bound_next sw = NX_NULL \<and>
     20 \<notin> set (ex_buckets 27) \<and>
     port_table_ok ex_cfg ws 1 ex_buckets"
proof -
  have sk: "load (udp_sockets ex_world_waiting) 20 = Inr ex_udp_unbound"
    by (simp add: load_def NX_NULL_def ex_world_waiting_def)
  have wf: "port_table_ok ex_cfg ex_world_waiting (nx_udp_socket_ip_ptr ex_udp_unbound) ex_buckets"
    using ex_waiting_table_ok by (simp add: ex_unbound_socket)
  have p: "(5000 :: UINT) \<noteq> NX_ANY_PORT" by (simp add: NX_ANY_PORT_def)
  have w: "(5 :: ULONG) \<noteq> 0" by simp
  have c: "tx_thread_current_ptr ex_world_waiting = 400"
    by (simp add: ex_world_waiting_def ex_world_def)
  have own: "10 \<in> set (ex_buckets (udp_hash ex_cfg 5000))"
    "udp_sockets ex_world_waiting 10
       = Some (ex_udp_bound\<lparr>nx_udp_socket_bind_suspension_list := 401,
                            nx_udp_socket_bind_suspended_count := 1\<rparr>)"
    "nx_udp_socket_port (ex_udp_bound\<lparr>nx_udp_socket_bind_suspension_list := 401,
                                      nx_udp_socket_bind_suspended_count := 1\<rparr>) = 5000"
    by (simp_all add: ex_hash_5000 ex_buckets_def ex_world_waiting_def ex_udp_bound_def)
  have cur: "load (threads ex_world_waiting) (tx_thread_current_ptr ex_world_waiting) = Inr ex_thread"
    by (simp add: load_def NX_NULL_def ex_world_waiting_def ex_world_def)
  have lst: "\<forall>b sb. b \<in> set (ex_buckets (udp_hash ex_cfg 5000)) \<and>
                udp_sockets ex_world_waiting b = Some sb \<and>
                nx_udp_socket_bind_suspension_list sb \<noteq> NX_NULL \<longrightarrow>
                (\<exists>lh q. load (threads ex_world_waiting) (nx_udp_socket_bind_suspension_list sb) = Inr lh \<and>
                        load (threads ex_world_waiting) (tx_thread_suspended_previous lh) = Inr q)"
    by (auto simp: ex_hash_5000 ex_buckets_def ex_world_waiting_def load_def NX_NULL_def)
  have again: "\<forall>w2 t2. load (threads w2) (tx_thread_current_ptr ex_world_waiting) = Inr t2 \<longrightarrow>
                 (\<exists>t. load (threads (tx_thread_system_suspend ex_env w2
                                        (tx_thread_current_ptr ex_world_waiting)))
                        (tx_thread_current_ptr ex_world_waiting) = Inr t)"
    by (auto simp: c ex_env_def ex_wake_def load_def split: option.splits if_splits)
  have m: "(27 :: UINT) \<le> NX_UDP_PORT_TABLE_MASK ex_cfg" by (simp add: ex_cfg_def)
  from udp_bind_collision_wait[OF wf sk ex_unbound_socket(3,4) p own w cur lst again]
  obtain st w' ws owner so sw where
    r: "nx_udp_socket_bind ex_cfg ex_env ex_world_waiting 20 5000 5
          = Some (Inr (st, w', [(TX_MUTEX_GET 1, ex_world_waiting), (TX_MUTEX_PUT 1, ws),
                                (TX_THREAD_SYSTEM_SUSPEND 400, ws)]))"
    and o: "owner \<in> set (ex_buckets (udp_hash ex_cfg 5000))"
    and sw: "udp_sockets ws 20 = Some sw" "nx_udp_socket_bound_previous sw = owner"
      "nx_udp_socket_bind_in_progress sw = 400" "nx_udp_socket_bound_next sw = NX_NULL"
    and nm: "\<forall>i. i \<le> NX_UDP_PORT_TABLE_MASK ex_cfg \<longrightarrow> 20 \<notin> set (ex_buckets i)"
    and ok: "port_table_ok ex_cfg ws 1 ex_buckets"
    unfolding c ex_unbound_socket(2) by blast
  have "owner = 10" using o by (simp add: ex_hash_5000 ex_buckets_def)
  with r sw nm m ok show ?thesis by blast
qed


end
